theory Spec2Isabelle
  imports Complex_Main "HOL-Library.Word"
begin

section \<open>Constants (constants.js)\<close>

text \<open>
  JavaScript numbers are modelled as real numbers: the arithmetic of the editor is
  exact here, rounding of IEEE doubles is outside the model. Their overflow is modelled
  where a resize scales the coordinates of an arrow or of a stroke, see \<open>overflows\<close>.
\<close>

definition handleSize :: real where
  "handleSize = 8"

definition hitTolerance :: real where
  "hitTolerance = 10"

definition maxEntries :: nat where
  "maxEntries = 20"

definition minShapeSize :: real where
  "minShapeSize = 10"

definition minArrowLength :: real where
  "minArrowLength = 5"

definition textBaselineRatio :: real where
  "textBaselineRatio = 8 / 10"

text \<open>
  What the reals cannot hold is an error value: \<open>TypeError\<close> is the exception thrown on
  reading a field of \<open>undefined\<close>, and \<open>NonFinite\<close> stands for a coordinate that
  JavaScript would compute as \<open>Infinity\<close> or \<open>NaN\<close>.
\<close>

datatype error = TypeError | NonFinite

section \<open>Annotation classes (annotations.js)\<close>

text \<open>
  The point objects \<open>{x, y}\<close> of a stroke are the only objects of the editor that are
  shared between containers and mutated in place, so they live in an explicit store:
  a stroke holds the addresses of its points, in order. Every other annotation is
  rebuilt field by field whenever it is copied, and is a value here.
\<close>

type_synonym addr = nat

text \<open>
  A JavaScript string is a sequence of UTF-16 code units. The text of a text annotation
  and the value of the input element are such strings; the colours and the tool names
  are ASCII identifiers of the program and are written as character strings.
\<close>

type_synonym codeUnit = "16 word"

type_synonym jsString = "codeUnit list"

record point =
  p_x :: real
  p_y :: real

type_synonym heap = "addr \<Rightarrow> point"

record bounds =
  b_x :: real
  b_y :: real
  b_width :: real
  b_height :: real

record stroke =
  s_points :: "addr list"
  s_color :: string
  s_lineWidth :: real

record arrow =
  a_startX :: real
  a_startY :: real
  a_endX :: real
  a_endY :: real
  a_color :: string
  a_lineWidth :: real

record textAnnotation =
  t_x :: real
  t_y :: real
  t_text :: jsString
  t_fontSize :: real
  t_color :: string

record rectangle =
  r_x :: real
  r_y :: real
  r_width :: real
  r_height :: real
  r_color :: string
  r_lineWidth :: real
  r_filled :: bool

record ellipse =
  e_startX :: real
  e_startY :: real
  e_centerX :: real
  e_centerY :: real
  e_radiusX :: real
  e_radiusY :: real
  e_color :: string
  e_lineWidth :: real
  e_filled :: bool

record blurRegion =
  bl_x :: real
  bl_y :: real
  bl_width :: real
  bl_height :: real

subsection \<open>Constructors\<close>

definition newStroke :: "string \<Rightarrow> real \<Rightarrow> stroke" where
  "newStroke color lineWidth = \<lparr>s_points = [], s_color = color, s_lineWidth = lineWidth\<rparr>"

definition newArrow :: "real \<Rightarrow> real \<Rightarrow> string \<Rightarrow> real \<Rightarrow> arrow" where
  "newArrow startX startY color lineWidth =
     \<lparr>a_startX = startX, a_startY = startY, a_endX = startX, a_endY = startY,
      a_color = color, a_lineWidth = lineWidth\<rparr>"

definition newTextAnnotation :: "real \<Rightarrow> real \<Rightarrow> jsString \<Rightarrow> real \<Rightarrow> string \<Rightarrow> textAnnotation" where
  "newTextAnnotation x y text fontSize color =
     \<lparr>t_x = x, t_y = y, t_text = text, t_fontSize = fontSize, t_color = color\<rparr>"

definition newRectangle :: "real \<Rightarrow> real \<Rightarrow> string \<Rightarrow> real \<Rightarrow> bool \<Rightarrow> rectangle" where
  "newRectangle x y color lineWidth filled =
     \<lparr>r_x = x, r_y = y, r_width = 0, r_height = 0,
      r_color = color, r_lineWidth = lineWidth, r_filled = filled\<rparr>"

definition newEllipse :: "real \<Rightarrow> real \<Rightarrow> string \<Rightarrow> real \<Rightarrow> bool \<Rightarrow> ellipse" where
  "newEllipse x y color lineWidth filled =
     \<lparr>e_startX = x, e_startY = y, e_centerX = x, e_centerY = y,
      e_radiusX = 0, e_radiusY = 0,
      e_color = color, e_lineWidth = lineWidth, e_filled = filled\<rparr>"

definition newBlurRegion :: "real \<Rightarrow> real \<Rightarrow> blurRegion" where
  "newBlurRegion x y = \<lparr>bl_x = x, bl_y = y, bl_width = 0, bl_height = 0\<rparr>"

subsection \<open>Update methods\<close>

text \<open>
  \<open>Stroke.addPoint\<close> pushes a freshly allocated point object: the store gets a new
  cell at the next free address.
\<close>

definition addPoint :: "real \<Rightarrow> real \<Rightarrow> stroke \<times> heap \<times> addr \<Rightarrow> stroke \<times> heap \<times> addr" where
  "addPoint x y shn =
     (case shn of (st, h, n) \<Rightarrow>
        (st\<lparr>s_points := s_points st @ [n]\<rparr>, h(n := \<lparr>p_x = x, p_y = y\<rparr>), Suc n))"

definition arrowSetEnd :: "real \<Rightarrow> real \<Rightarrow> arrow \<Rightarrow> arrow" where
  "arrowSetEnd x y a = a\<lparr>a_endX := x, a_endY := y\<rparr>"

definition rectangleSetEnd :: "real \<Rightarrow> real \<Rightarrow> rectangle \<Rightarrow> rectangle" where
  "rectangleSetEnd endX endY r = r\<lparr>r_width := endX - r_x r, r_height := endY - r_y r\<rparr>"

definition ellipseSetEnd :: "real \<Rightarrow> real \<Rightarrow> ellipse \<Rightarrow> ellipse" where
  "ellipseSetEnd endX endY e =
     e\<lparr>e_centerX := (e_startX e + endX) / 2,
       e_centerY := (e_startY e + endY) / 2,
       e_radiusX := \<bar>endX - e_startX e\<bar> / 2,
       e_radiusY := \<bar>endY - e_startY e\<bar> / 2\<rparr>"

definition blurSetEnd :: "real \<Rightarrow> real \<Rightarrow> blurRegion \<Rightarrow> blurRegion" where
  "blurSetEnd endX endY b = b\<lparr>bl_width := endX - bl_x b, bl_height := endY - bl_y b\<rparr>"

subsection \<open>getBounds\<close>

text \<open>
  \<open>Stroke.getBounds\<close> returns \<open>null\<close> for a stroke without points. Otherwise it folds
  \<open>Math.min\<close> and \<open>Math.max\<close> over the points from the seeds \<open>Infinity\<close> and
  \<open>-Infinity\<close>; over a non-empty list that is the fold seeded with the first point.
\<close>

definition strokeGetBounds :: "heap \<Rightarrow> stroke \<Rightarrow> bounds option" where
  "strokeGetBounds h st =
     (case map h (s_points st) of
        [] \<Rightarrow> None
      | p # ps \<Rightarrow>
          (let minX = fold (\<lambda>q m. min m (p_x q)) ps (p_x p);
               minY = fold (\<lambda>q m. min m (p_y q)) ps (p_y p);
               maxX = fold (\<lambda>q m. max m (p_x q)) ps (p_x p);
               maxY = fold (\<lambda>q m. max m (p_y q)) ps (p_y p)
           in Some \<lparr>b_x = minX, b_y = minY, b_width = maxX - minX, b_height = maxY - minY\<rparr>))"

definition arrowGetBounds :: "arrow \<Rightarrow> bounds" where
  "arrowGetBounds a =
     \<lparr>b_x = min (a_startX a) (a_endX a),
      b_y = min (a_startY a) (a_endY a),
      b_width = \<bar>a_endX a - a_startX a\<bar>,
      b_height = \<bar>a_endY a - a_startY a\<bar>\<rparr>"

text \<open>
  \<open>TextAnnotation.getBounds(ctx)\<close> asks the drawing context for the width of the text
  at the annotation's font size; \<open>measureText\<close> is that function of the context.
\<close>

definition textGetBounds :: "(real \<Rightarrow> jsString \<Rightarrow> real) \<Rightarrow> textAnnotation \<Rightarrow> bounds" where
  "textGetBounds measureText t =
     \<lparr>b_x = t_x t - 4,
      b_y = t_y t - t_fontSize t,
      b_width = measureText (t_fontSize t) (t_text t) + 8,
      b_height = t_fontSize t + 8\<rparr>"

definition rectangleGetBounds :: "rectangle \<Rightarrow> bounds" where
  "rectangleGetBounds r =
     \<lparr>b_x = (if r_width r \<ge> 0 then r_x r else r_x r + r_width r),
      b_y = (if r_height r \<ge> 0 then r_y r else r_y r + r_height r),
      b_width = \<bar>r_width r\<bar>,
      b_height = \<bar>r_height r\<bar>\<rparr>"

definition ellipseGetBounds :: "ellipse \<Rightarrow> bounds" where
  "ellipseGetBounds e =
     \<lparr>b_x = e_centerX e - e_radiusX e,
      b_y = e_centerY e - e_radiusY e,
      b_width = e_radiusX e * 2,
      b_height = e_radiusY e * 2\<rparr>"

definition blurGetBounds :: "blurRegion \<Rightarrow> bounds" where
  "blurGetBounds b =
     \<lparr>b_x = (if bl_width b \<ge> 0 then bl_x b else bl_x b + bl_width b),
      b_y = (if bl_height b \<ge> 0 then bl_y b else bl_y b + bl_height b),
      b_width = \<bar>bl_width b\<bar>,
      b_height = \<bar>bl_height b\<bar>\<rparr>"

section \<open>Editor state (state.js)\<close>

datatype annType = TStroke | TArrow | TRectangle | TEllipse | TText | TBlur

record pendingText =
  pt_x :: real
  pt_y :: real
  pt_fontSize :: real
  pt_color :: string

record historyEntry =
  h_strokes :: "stroke list"
  h_arrows :: "arrow list"
  h_rectangles :: "rectangle list"
  h_ellipses :: "ellipse list"
  h_blurs :: "blurRegion list"
  h_texts :: "textAnnotation list"

text \<open>
  The state object, with what the handlers keep beside it: the store of point objects
  and its next free address, the value of the text input element, the pending animation
  frame of the shape preview (\<open>rafId\<close>, \<open>pendingCoords\<close>) and the text measurement of
  the drawing context.

  \<open>selectedAnnotation\<close> is a reference to an element of one of the six lists;
  \<open>selectedType\<close> and \<open>selectedIndex\<close> name the list and the position, and the three are
  always set together (\<open>handleSelectMouseDown\<close>) and cleared together
  (\<open>clearSelection\<close>). The lists only grow at the end while a selection stands, and
  \<open>restoreFromHistory\<close>, which replaces them, clears it. The field \<open>selection\<close> is that
  triple: the reference is the pair of type and index.
\<close>

record state =
  currentTool :: string
  color :: string
  lineWidth :: real
  fontSize :: real
  filled :: bool
  isDrawing :: bool
  strokes :: "stroke list"
  currentStroke :: "stroke option"
  arrows :: "arrow list"
  currentArrow :: "arrow option"
  rectangles :: "rectangle list"
  currentRectangle :: "rectangle option"
  ellipses :: "ellipse list"
  currentEllipse :: "ellipse option"
  blurs :: "blurRegion list"
  currentBlur :: "blurRegion option"
  texts :: "textAnnotation list"
  isEditingText :: bool
  pendingText :: "pendingText option"
  selection :: "(annType \<times> nat) option"
  dragMode :: "string option"
  dragStartX :: real
  dragStartY :: real
  originalBounds :: "bounds option"
  history :: "historyEntry list"
  historyIndex :: int
  heap :: heap
  nextAddr :: addr
  textInputValue :: jsString
  rafId :: bool
  pendingCoords :: "(real \<times> real) option"
  measureText :: "real \<Rightarrow> jsString \<Rightarrow> real"

definition initialState :: "(real \<Rightarrow> jsString \<Rightarrow> real) \<Rightarrow> state" where
  "initialState mt =
     \<lparr>currentTool = ''select'', color = ''#ef4444'', lineWidth = 4, fontSize = 24,
      filled = False, isDrawing = False,
      strokes = [], currentStroke = None,
      arrows = [], currentArrow = None,
      rectangles = [], currentRectangle = None,
      ellipses = [], currentEllipse = None,
      blurs = [], currentBlur = None,
      texts = [], isEditingText = False, pendingText = None,
      selection = None, dragMode = None, dragStartX = 0, dragStartY = 0,
      originalBounds = None,
      history = [], historyIndex = - 1,
      heap = (\<lambda>_. \<lparr>p_x = 0, p_y = 0\<rparr>), nextAddr = 0,
      textInputValue = [], rafId = False, pendingCoords = None,
      measureText = mt\<rparr>"

definition clearSelection :: "state \<Rightarrow> state" where
  "clearSelection s = s\<lparr>selection := None, dragMode := None, originalBounds := None\<rparr>"

section \<open>History (history.js)\<close>

definition copyStroke :: "stroke \<Rightarrow> stroke" where
  "copyStroke st = (newStroke (s_color st) (s_lineWidth st))\<lparr>s_points := s_points st\<rparr>"

definition copyArrow :: "arrow \<Rightarrow> arrow" where
  "copyArrow a =
     (newArrow (a_startX a) (a_startY a) (a_color a) (a_lineWidth a))
       \<lparr>a_endX := a_endX a, a_endY := a_endY a\<rparr>"

definition copyRectangle :: "rectangle \<Rightarrow> rectangle" where
  "copyRectangle r =
     (newRectangle (r_x r) (r_y r) (r_color r) (r_lineWidth r) (r_filled r))
       \<lparr>r_width := r_width r, r_height := r_height r\<rparr>"

definition copyEllipse :: "ellipse \<Rightarrow> ellipse" where
  "copyEllipse e =
     (newEllipse (e_startX e) (e_startY e) (e_color e) (e_lineWidth e) (e_filled e))
       \<lparr>e_centerX := e_centerX e, e_centerY := e_centerY e,
        e_radiusX := e_radiusX e, e_radiusY := e_radiusY e\<rparr>"

definition copyBlur :: "blurRegion \<Rightarrow> blurRegion" where
  "copyBlur b = (newBlurRegion (bl_x b) (bl_y b))\<lparr>bl_width := bl_width b, bl_height := bl_height b\<rparr>"

definition copyText :: "textAnnotation \<Rightarrow> textAnnotation" where
  "copyText t = newTextAnnotation (t_x t) (t_y t) (t_text t) (t_fontSize t) (t_color t)"

text \<open>
  \<open>copy.points = [...stroke.points]\<close> makes a new array of the same point objects: in
  the model the copy holds the same addresses, and the store is untouched.
\<close>

definition snapshot :: "state \<Rightarrow> historyEntry" where
  "snapshot s =
     \<lparr>h_strokes = map copyStroke (strokes s),
      h_arrows = map copyArrow (arrows s),
      h_rectangles = map copyRectangle (rectangles s),
      h_ellipses = map copyEllipse (ellipses s),
      h_blurs = map copyBlur (blurs s),
      h_texts = map copyText (texts s)\<rparr>"

text \<open>\<open>xs.slice(0, e)\<close>: a negative end counts from the end of the array.\<close>

definition slice0 :: "'a list \<Rightarrow> int \<Rightarrow> 'a list" where
  "slice0 xs e = (if e < 0 then take (nat (int (length xs) + e)) xs else take (nat e) xs)"

definition saveToHistory :: "state \<Rightarrow> state" where
  "saveToHistory s =
     (let hist = (if historyIndex s < int (length (history s)) - 1
                  then slice0 (history s) (historyIndex s + 1) else history s);
          pushed = hist @ [snapshot s];
          idx = int (length pushed) - 1
      in if length pushed > maxEntries
         then s\<lparr>history := tl pushed, historyIndex := idx - 1\<rparr>
         else s\<lparr>history := pushed, historyIndex := idx\<rparr>)"

text \<open>
  \<open>state.history[state.historyIndex]\<close> is \<open>undefined\<close> outside the array, and reading
  a field of it throws: \<open>TypeError\<close>.
\<close>

definition restoreFromHistory :: "state \<Rightarrow> error + state" where
  "restoreFromHistory s0 =
     (let s = clearSelection s0 in
      if 0 \<le> historyIndex s \<and> historyIndex s < int (length (history s))
      then (let entry = history s ! nat (historyIndex s) in
            Inr (s\<lparr>strokes := map copyStroke (h_strokes entry),
                   arrows := map copyArrow (h_arrows entry),
                   rectangles := map copyRectangle (h_rectangles entry),
                   ellipses := map copyEllipse (h_ellipses entry),
                   blurs := map copyBlur (h_blurs entry),
                   texts := map copyText (h_texts entry)\<rparr>))
      else Inl TypeError)"

definition undo :: "state \<Rightarrow> error + state" where
  "undo s =
     (if historyIndex s > 0
      then restoreFromHistory (s\<lparr>historyIndex := historyIndex s - 1\<rparr>)
      else Inr s)"

definition redo :: "state \<Rightarrow> error + state" where
  "redo s =
     (if historyIndex s < int (length (history s)) - 1
      then restoreFromHistory (s\<lparr>historyIndex := historyIndex s + 1\<rparr>)
      else Inr s)"

section \<open>Hit detection (tool-manager.js)\<close>

definition pointInBounds :: "real \<Rightarrow> real \<Rightarrow> bounds \<Rightarrow> bool" where
  "pointInBounds x y b \<longleftrightarrow>
     x \<ge> b_x b \<and> x \<le> b_x b + b_width b \<and> y \<ge> b_y b \<and> y \<le> b_y b + b_height b"

definition distanceToLine :: "real \<Rightarrow> real \<Rightarrow> real \<Rightarrow> real \<Rightarrow> real \<Rightarrow> real \<Rightarrow> real" where
  "distanceToLine px py x1 y1 x2 y2 =
     (let A = px - x1; B = py - y1; C = x2 - x1; D = y2 - y1;
          dot = A * C + B * D;
          lenSq = C * C + D * D;
          t0 = (if lenSq \<noteq> 0 then dot / lenSq else - 1);
          t = max 0 (min 1 t0);
          nearX = x1 + t * C; nearY = y1 + t * D
      in sqrt ((px - nearX)\<^sup>2 + (py - nearY)\<^sup>2))"

text \<open>
  The loop \<open>for (let i = xs.length - 1; i >= 0; i--) if (hit(xs[i])) return i\<close>:
  \<open>scanDown hit xs n\<close> tests the positions \<open>n - 1\<close> down to \<open>0\<close>.
\<close>

fun scanDown :: "('a \<Rightarrow> bool) \<Rightarrow> 'a list \<Rightarrow> nat \<Rightarrow> nat option" where
  "scanDown hit xs 0 = None"
| "scanDown hit xs (Suc i) = (if hit (xs ! i) then Some i else scanDown hit xs i)"

text \<open>
  The inner loop over the segments of a stroke,
  \<open>for (let j = 1; j < points.length; j++)\<close>, on the points read from the store.
\<close>

fun anySegmentNear :: "real \<Rightarrow> real \<Rightarrow> point list \<Rightarrow> bool" where
  "anySegmentNear x y (p1 # p2 # ps) =
     (if distanceToLine x y (p_x p1) (p_y p1) (p_x p2) (p_y p2) < hitTolerance then True
      else anySegmentNear x y (p2 # ps))"
| "anySegmentNear x y ps = False"

definition textHit :: "state \<Rightarrow> real \<Rightarrow> real \<Rightarrow> textAnnotation \<Rightarrow> bool" where
  "textHit s x y t = pointInBounds x y (textGetBounds (measureText s) t)"

definition ellipseHit :: "real \<Rightarrow> real \<Rightarrow> ellipse \<Rightarrow> bool" where
  "ellipseHit x y e = pointInBounds x y (ellipseGetBounds e)"

definition rectangleHit :: "real \<Rightarrow> real \<Rightarrow> rectangle \<Rightarrow> bool" where
  "rectangleHit x y r = pointInBounds x y (rectangleGetBounds r)"

definition arrowHit :: "real \<Rightarrow> real \<Rightarrow> arrow \<Rightarrow> bool" where
  "arrowHit x y a =
     (distanceToLine x y (a_startX a) (a_startY a) (a_endX a) (a_endY a) < hitTolerance)"

definition strokeHit :: "state \<Rightarrow> real \<Rightarrow> real \<Rightarrow> stroke \<Rightarrow> bool" where
  "strokeHit s x y st = anySegmentNear x y (map (heap s) (s_points st))"

definition blurHit :: "real \<Rightarrow> real \<Rightarrow> blurRegion \<Rightarrow> bool" where
  "blurHit x y b = pointInBounds x y (blurGetBounds b)"

definition findAnnotationAtPoint :: "real \<Rightarrow> real \<Rightarrow> state \<Rightarrow> (annType \<times> nat) option" where
  "findAnnotationAtPoint x y s =
     (case scanDown (textHit s x y) (texts s) (length (texts s)) of
        Some i \<Rightarrow> Some (TText, i)
      | None \<Rightarrow>
     (case scanDown (ellipseHit x y) (ellipses s) (length (ellipses s)) of
        Some i \<Rightarrow> Some (TEllipse, i)
      | None \<Rightarrow>
     (case scanDown (rectangleHit x y) (rectangles s) (length (rectangles s)) of
        Some i \<Rightarrow> Some (TRectangle, i)
      | None \<Rightarrow>
     (case scanDown (arrowHit x y) (arrows s) (length (arrows s)) of
        Some i \<Rightarrow> Some (TArrow, i)
      | None \<Rightarrow>
     (case scanDown (strokeHit s x y) (strokes s) (length (strokes s)) of
        Some i \<Rightarrow> Some (TStroke, i)
      | None \<Rightarrow>
     (case scanDown (blurHit x y) (blurs s) (length (blurs s)) of
        Some i \<Rightarrow> Some (TBlur, i)
      | None \<Rightarrow> None))))))"

text \<open>
  The four handles are tried in the order the object literal lists them:
  nw, ne, sw, se.
\<close>

definition getHandleAtPoint :: "real \<Rightarrow> real \<Rightarrow> bounds \<Rightarrow> string option" where
  "getHandleAtPoint x y b =
     (let hs = handleSize in
      if \<bar>x - b_x b\<bar> \<le> hs \<and> \<bar>y - b_y b\<bar> \<le> hs then Some ''resize-nw''
      else if \<bar>x - (b_x b + b_width b)\<bar> \<le> hs \<and> \<bar>y - b_y b\<bar> \<le> hs then Some ''resize-ne''
      else if \<bar>x - b_x b\<bar> \<le> hs \<and> \<bar>y - (b_y b + b_height b)\<bar> \<le> hs then Some ''resize-sw''
      else if \<bar>x - (b_x b + b_width b)\<bar> \<le> hs \<and> \<bar>y - (b_y b + b_height b)\<bar> \<le> hs
      then Some ''resize-se''
      else None)"

section \<open>Move and resize (tool-manager.js)\<close>

text \<open>
  The selected annotation is the element at the selected index of the list of the
  selected type. \<open>getBounds\<close> of it is \<open>null\<close> only for a stroke without points.
\<close>

definition annotationBounds :: "state \<Rightarrow> annType \<Rightarrow> nat \<Rightarrow> bounds option" where
  "annotationBounds s ty i =
     (case ty of
        TStroke \<Rightarrow> (if i < length (strokes s) then strokeGetBounds (heap s) (strokes s ! i) else None)
      | TArrow \<Rightarrow> (if i < length (arrows s) then Some (arrowGetBounds (arrows s ! i)) else None)
      | TRectangle \<Rightarrow>
          (if i < length (rectangles s) then Some (rectangleGetBounds (rectangles s ! i)) else None)
      | TEllipse \<Rightarrow>
          (if i < length (ellipses s) then Some (ellipseGetBounds (ellipses s ! i)) else None)
      | TText \<Rightarrow>
          (if i < length (texts s) then Some (textGetBounds (measureText s) (texts s ! i)) else None)
      | TBlur \<Rightarrow> (if i < length (blurs s) then Some (blurGetBounds (blurs s ! i)) else None))"

text \<open>\<open>points.forEach(p => { p.x += dx; p.y += dy; })\<close>: each point object is written in place.\<close>

definition movePoints :: "real \<Rightarrow> real \<Rightarrow> addr list \<Rightarrow> heap \<Rightarrow> heap" where
  "movePoints dx dy as h =
     fold (\<lambda>a h. h(a := \<lparr>p_x = p_x (h a) + dx, p_y = p_y (h a) + dy\<rparr>)) as h"

definition moveAnnotation :: "annType \<Rightarrow> nat \<Rightarrow> real \<Rightarrow> real \<Rightarrow> state \<Rightarrow> state" where
  "moveAnnotation ty i dx dy s =
     (case ty of
        TStroke \<Rightarrow>
          (if i < length (strokes s)
           then s\<lparr>heap := movePoints dx dy (s_points (strokes s ! i)) (heap s)\<rparr> else s)
      | TArrow \<Rightarrow>
          s\<lparr>arrows := (arrows s)[i := (let a = arrows s ! i in
               a\<lparr>a_startX := a_startX a + dx, a_startY := a_startY a + dy,
                 a_endX := a_endX a + dx, a_endY := a_endY a + dy\<rparr>)]\<rparr>
      | TRectangle \<Rightarrow>
          s\<lparr>rectangles := (rectangles s)[i := (let r = rectangles s ! i in
               r\<lparr>r_x := r_x r + dx, r_y := r_y r + dy\<rparr>)]\<rparr>
      | TBlur \<Rightarrow>
          s\<lparr>blurs := (blurs s)[i := (let b = blurs s ! i in
               b\<lparr>bl_x := bl_x b + dx, bl_y := bl_y b + dy\<rparr>)]\<rparr>
      | TEllipse \<Rightarrow>
          s\<lparr>ellipses := (ellipses s)[i := (let e = ellipses s ! i in
               e\<lparr>e_centerX := e_centerX e + dx, e_centerY := e_centerY e + dy,
                 e_startX := e_startX e + dx, e_startY := e_startY e + dy\<rparr>)]\<rparr>
      | TText \<Rightarrow>
          s\<lparr>texts := (texts s)[i := (let t = texts s ! i in
               t\<lparr>t_x := t_x t + dx, t_y := t_y t + dy\<rparr>)]\<rparr>)"

text \<open>\<open>a || b\<close> on numbers: the first operand unless it is zero.\<close>

definition jsOr :: "real \<Rightarrow> real \<Rightarrow> real" where
  "jsOr a b = (if a = 0 then b else a)"

text \<open>
  The largest finite double is \<open>2 ^ 1024 - 2 ^ 971\<close>. An operation on finite doubles whose
  exact result has a magnitude of \<open>2 ^ 1024 - 2 ^ 970\<close> or more, the largest finite double
  and half a unit of its last place, overflows: its result is \<open>Infinity\<close> or
  \<open>-Infinity\<close>.
\<close>

definition overflowBound :: real where
  "overflowBound = 2 ^ 1024 - 2 ^ 970"

definition inRange :: "real \<Rightarrow> bool" where
  "inRange v \<longleftrightarrow> \<bar>v\<bar> < overflowBound"

text \<open>
  \<open>overflows operands results\<close>: the operands of a computation are in the range of the
  finite doubles and one of its results, intermediate results included, is not. Operands
  beyond the range stand for no number of the program: nothing is reported for them, and
  the result is the exact one.
\<close>

definition overflows :: "real list \<Rightarrow> real list \<Rightarrow> bool" where
  "overflows operands results \<longleftrightarrow> list_all inRange operands \<and> \<not> list_all inRange results"

definition boundsFields :: "bounds \<Rightarrow> real list" where
  "boundsFields b = [b_x b, b_y b, b_width b, b_height b]"

text \<open>
  The quotient of the scale factors. A zero divisor makes it \<open>Infinity\<close> or \<open>NaN\<close>, an
  overflow makes it \<open>Infinity\<close>, and every coordinate computed from it is then
  \<open>Infinity\<close> or \<open>NaN\<close> too.
\<close>

definition jsDivide :: "real \<Rightarrow> real \<Rightarrow> error + real" where
  "jsDivide a b =
     (if b = 0 then Inl NonFinite
      else if overflows [a, b] [a / b] then Inl NonFinite
      else Inr (a / b))"

text \<open>
  \<open>newBounds.x + (x - original.x) * scaleX\<close> and the same for \<open>y\<close>: one point scaled.
  When the difference, the product or the sum overflows, the coordinate is \<open>Infinity\<close>
  or \<open>NaN\<close>.
\<close>

definition scalePoint :: "bounds \<Rightarrow> bounds \<Rightarrow> real \<Rightarrow> real \<Rightarrow> real \<Rightarrow> real \<Rightarrow> error + point" where
  "scalePoint newBounds original scaleX scaleY x y =
     (let dx = x - b_x original; mx = dx * scaleX; x' = b_x newBounds + mx;
          dy = y - b_y original; my = dy * scaleY; y' = b_y newBounds + my
      in if overflows (x # y # scaleX # scaleY # boundsFields newBounds @ boundsFields original)
              [dx, mx, x', dy, my, y']
         then Inl NonFinite
         else Inr \<lparr>p_x = x', p_y = y'\<rparr>)"

text \<open>\<open>points.forEach(p => ...)\<close>: the point objects are scaled in place, in order.\<close>

fun scaleEach :: "bounds \<Rightarrow> bounds \<Rightarrow> real \<Rightarrow> real \<Rightarrow> addr list \<Rightarrow> heap \<Rightarrow> error + heap" where
  "scaleEach newBounds original scaleX scaleY [] h = Inr h"
| "scaleEach newBounds original scaleX scaleY (a # as) h =
     (case scalePoint newBounds original scaleX scaleY (p_x (h a)) (p_y (h a)) of
        Inl e \<Rightarrow> Inl e
      | Inr p \<Rightarrow> scaleEach newBounds original scaleX scaleY as (h(a := p)))"

definition scalePoints :: "bounds \<Rightarrow> bounds \<Rightarrow> addr list \<Rightarrow> heap \<Rightarrow> error + heap" where
  "scalePoints newBounds original as h =
     (case jsDivide (b_width newBounds) (jsOr (b_width original) 1) of
        Inl e \<Rightarrow> Inl e
      | Inr strokeScaleX \<Rightarrow>
     (case jsDivide (b_height newBounds) (jsOr (b_height original) 1) of
        Inl e \<Rightarrow> Inl e
      | Inr strokeScaleY \<Rightarrow> scaleEach newBounds original strokeScaleX strokeScaleY as h))"

definition scaleArrow :: "bounds \<Rightarrow> bounds \<Rightarrow> arrow \<Rightarrow> error + arrow" where
  "scaleArrow newBounds original a =
     (case jsDivide (b_width newBounds) (jsOr (b_width original) 1) of
        Inl e \<Rightarrow> Inl e
      | Inr scaleX \<Rightarrow>
     (case jsDivide (b_height newBounds) (jsOr (b_height original) 1) of
        Inl e \<Rightarrow> Inl e
      | Inr scaleY \<Rightarrow>
     (case scalePoint newBounds original scaleX scaleY (a_startX a) (a_startY a) of
        Inl e \<Rightarrow> Inl e
      | Inr startPoint \<Rightarrow>
     (case scalePoint newBounds original scaleX scaleY (a_endX a) (a_endY a) of
        Inl e \<Rightarrow> Inl e
      | Inr endPoint \<Rightarrow>
          Inr (a\<lparr>a_startX := p_x startPoint, a_startY := p_y startPoint,
                 a_endX := p_x endPoint, a_endY := p_y endPoint\<rparr>)))))"

definition applyBoundsToAnnotation ::
    "annType \<Rightarrow> nat \<Rightarrow> bounds \<Rightarrow> bounds \<Rightarrow> state \<Rightarrow> error + state" where
  "applyBoundsToAnnotation ty i newBounds original s =
     (case ty of
        TRectangle \<Rightarrow>
          Inr (s\<lparr>rectangles := (rectangles s)[i := (rectangles s ! i)
               \<lparr>r_x := b_x newBounds, r_y := b_y newBounds,
                r_width := b_width newBounds, r_height := b_height newBounds\<rparr>]\<rparr>)
      | TBlur \<Rightarrow>
          Inr (s\<lparr>blurs := (blurs s)[i := (blurs s ! i)
               \<lparr>bl_x := b_x newBounds, bl_y := b_y newBounds,
                bl_width := b_width newBounds, bl_height := b_height newBounds\<rparr>]\<rparr>)
      | TEllipse \<Rightarrow>
          Inr (s\<lparr>ellipses := (ellipses s)[i := (ellipses s ! i)
               \<lparr>e_centerX := b_x newBounds + b_width newBounds / 2,
                e_centerY := b_y newBounds + b_height newBounds / 2,
                e_radiusX := b_width newBounds / 2,
                e_radiusY := b_height newBounds / 2,
                e_startX := b_x newBounds,
                e_startY := b_y newBounds\<rparr>]\<rparr>)
      | TArrow \<Rightarrow>
          (case scaleArrow newBounds original (arrows s ! i) of
             Inl e \<Rightarrow> Inl e
           | Inr a \<Rightarrow> Inr (s\<lparr>arrows := (arrows s)[i := a]\<rparr>))
      | TStroke \<Rightarrow>
          (if i < length (strokes s)
           then (case scalePoints newBounds original (s_points (strokes s ! i)) (heap s) of
                   Inl e \<Rightarrow> Inl e
                 | Inr h \<Rightarrow> Inr (s\<lparr>heap := h\<rparr>))
           else Inr s)
      | TText \<Rightarrow>
          Inr (s\<lparr>texts := (texts s)[i := (let t = texts s ! i in
               t\<lparr>t_x := b_x newBounds + 4, t_y := b_y newBounds + t_fontSize t\<rparr>)]\<rparr>))"

text \<open>
  \<open>mode.includes('w')\<close> looks for the letter anywhere in the mode string, the prefix
  \<open>resize-\<close> included.
\<close>

definition modeIncludes :: "string \<Rightarrow> char \<Rightarrow> bool" where
  "modeIncludes mode c \<longleftrightarrow> c \<in> set mode"

definition resizeBounds :: "string \<Rightarrow> real \<Rightarrow> real \<Rightarrow> bounds \<Rightarrow> bounds" where
  "resizeBounds mode dx dy original =
     (let nb0 = original;
          nb1 = (if modeIncludes mode CHR ''w''
                 then nb0\<lparr>b_x := b_x nb0 + dx, b_width := b_width nb0 - dx\<rparr> else nb0);
          nb2 = (if modeIncludes mode CHR ''e'' then nb1\<lparr>b_width := b_width nb1 + dx\<rparr> else nb1);
          nb3 = (if modeIncludes mode CHR ''n''
                 then nb2\<lparr>b_y := b_y nb2 + dy, b_height := b_height nb2 - dy\<rparr> else nb2);
          nb4 = (if modeIncludes mode CHR ''s'' then nb3\<lparr>b_height := b_height nb3 + dy\<rparr> else nb3);
          nb5 = (if b_width nb4 < 10 then nb4\<lparr>b_width := 10\<rparr> else nb4);
          nb6 = (if b_height nb5 < 10 then nb5\<lparr>b_height := 10\<rparr> else nb5)
      in nb6)"

definition resizeAnnotation ::
    "annType \<Rightarrow> nat \<Rightarrow> string \<Rightarrow> real \<Rightarrow> real \<Rightarrow> bounds \<Rightarrow> state \<Rightarrow> error + state" where
  "resizeAnnotation ty i mode dx dy original s =
     applyBoundsToAnnotation ty i (resizeBounds mode dx dy original) original s"

section \<open>Text tool (text-tool.js)\<close>

text \<open>
  \<open>String.prototype.trim\<close> on the value of the input element removes the leading and
  the trailing code units that are white space or line terminators of ECMAScript:
  tab, line feed, vertical tab, form feed, carriage return, space, no-break space
  (U+00A0), the other space separators of Unicode (U+1680, U+2000 to U+200A, U+202F,
  U+205F, U+3000), the line and paragraph separators (U+2028, U+2029) and the byte order
  mark (U+FEFF). Each of them is one code unit.
\<close>

definition jsWhitespace :: "codeUnit \<Rightarrow> bool" where
  "jsWhitespace c \<longleftrightarrow>
     c \<in> {0x0009, 0x000A, 0x000B, 0x000C, 0x000D, 0x0020, 0x00A0, 0x1680,
          0x2000, 0x2001, 0x2002, 0x2003, 0x2004, 0x2005, 0x2006, 0x2007, 0x2008, 0x2009,
          0x200A, 0x2028, 0x2029, 0x202F, 0x205F, 0x3000, 0xFEFF}"

definition trim :: "jsString \<Rightarrow> jsString" where
  "trim v = rev (dropWhile jsWhitespace (rev (dropWhile jsWhitespace v)))"

definition showTextInput :: "real \<Rightarrow> real \<Rightarrow> state \<Rightarrow> state" where
  "showTextInput x y s =
     s\<lparr>textInputValue := [],
       isEditingText := True,
       pendingText := Some \<lparr>pt_x = x, pt_y = y + fontSize s * textBaselineRatio,
                             pt_fontSize = fontSize s, pt_color = color s\<rparr>\<rparr>"

definition confirmTextInput :: "state \<Rightarrow> state" where
  "confirmTextInput s =
     (let text = trim (textInputValue s);
          s1 = (case pendingText s of
                  Some pt \<Rightarrow>
                    (if text \<noteq> []
                     then saveToHistory
                            (s\<lparr>texts := texts s @
                                 [newTextAnnotation (pt_x pt) (pt_y pt) text (pt_fontSize pt) (pt_color pt)]\<rparr>)
                     else s)
                | None \<Rightarrow> s)
      in s1\<lparr>textInputValue := [], isEditingText := False, pendingText := None\<rparr>)"

definition cancelTextInput :: "state \<Rightarrow> state" where
  "cancelTextInput s = s\<lparr>textInputValue := [], isEditingText := False, pendingText := None\<rparr>"

section \<open>Toolbar (toolbar.js)\<close>

text \<open>The click handler of a tool button; \<open>tool\<close> is the button's \<open>data-tool\<close>.\<close>

definition toolbarClick :: "string \<Rightarrow> state \<Rightarrow> error + state" where
  "toolbarClick tool s =
     (if tool = ''undo'' then undo s
      else if tool = ''redo'' then redo s
      else (let s1 = (if isEditingText s then cancelTextInput s else s);
                s2 = (if currentTool s1 = ''select'' \<and> tool \<noteq> ''select''
                      then clearSelection s1 else s1)
            in Inr (s2\<lparr>currentTool := tool\<rparr>)))"

section \<open>Shape preview on the animation frame (tool-manager.js)\<close>

definition scheduleShapeRedraw :: "real \<Rightarrow> real \<Rightarrow> state \<Rightarrow> state" where
  "scheduleShapeRedraw x y s =
     (let s1 = s\<lparr>pendingCoords := Some (x, y)\<rparr> in
      if rafId s1 then s1 else s1\<lparr>rafId := True\<rparr>)"

text \<open>The callback given to \<open>requestAnimationFrame\<close>; it runs only while one is pending.\<close>

definition animationFrame :: "state \<Rightarrow> state" where
  "animationFrame s =
     (if \<not> rafId s then s
      else
        (let s1 =
           (case pendingCoords s of
              Some (x, y) \<Rightarrow>
                (if isDrawing s then
                   (if currentTool s = ''arrow'' \<and> currentArrow s \<noteq> None
                    then s\<lparr>currentArrow := map_option (arrowSetEnd x y) (currentArrow s)\<rparr>
                    else if currentTool s = ''rectangle'' \<and> currentRectangle s \<noteq> None
                    then s\<lparr>currentRectangle := map_option (rectangleSetEnd x y) (currentRectangle s)\<rparr>
                    else if currentTool s = ''circle'' \<and> currentEllipse s \<noteq> None
                    then s\<lparr>currentEllipse := map_option (ellipseSetEnd x y) (currentEllipse s)\<rparr>
                    else if currentTool s = ''blur'' \<and> currentBlur s \<noteq> None
                    then s\<lparr>currentBlur := map_option (blurSetEnd x y) (currentBlur s)\<rparr>
                    else s)
                 else s)
            | None \<Rightarrow> s)
         in s1\<lparr>rafId := False, pendingCoords := None\<rparr>))"

section \<open>Select tool handlers (tool-manager.js)\<close>

definition hitAnnotation :: "real \<Rightarrow> real \<Rightarrow> state \<Rightarrow> state" where
  "hitAnnotation x y s =
     (case findAnnotationAtPoint x y s of
        Some (ty, i) \<Rightarrow>
          saveToHistory
            (s\<lparr>selection := Some (ty, i), dragMode := Some ''move'',
               dragStartX := x, dragStartY := y,
               originalBounds := annotationBounds s ty i\<rparr>)
      | None \<Rightarrow> clearSelection s)"

definition handleSelectMouseDown :: "real \<Rightarrow> real \<Rightarrow> state \<Rightarrow> state" where
  "handleSelectMouseDown x y s =
     (case selection s of
        Some (ty, i) \<Rightarrow>
          (case annotationBounds s ty i of
             Some b \<Rightarrow>
               (case getHandleAtPoint x y b of
                  Some handle \<Rightarrow>
                    saveToHistory
                      (s\<lparr>dragMode := Some handle, dragStartX := x, dragStartY := y,
                         originalBounds := Some b\<rparr>)
                | None \<Rightarrow> hitAnnotation x y s)
           | None \<Rightarrow> hitAnnotation x y s)
      | None \<Rightarrow> hitAnnotation x y s)"

text \<open>A mode is truthy when it is a non-empty string.\<close>

definition truthyMode :: "string option \<Rightarrow> bool" where
  "truthyMode m = (case m of None \<Rightarrow> False | Some str \<Rightarrow> str \<noteq> [])"

definition handleSelectMouseMove :: "real \<Rightarrow> real \<Rightarrow> state \<Rightarrow> error + state" where
  "handleSelectMouseMove x y s =
     (case selection s of
        None \<Rightarrow> Inr s
      | Some (ty, i) \<Rightarrow>
          (let dx = x - dragStartX s; dy = y - dragStartY s in
           if dragMode s = Some ''move''
           then Inr ((moveAnnotation ty i dx dy s)\<lparr>dragStartX := x, dragStartY := y\<rparr>)
           else (case (dragMode s, originalBounds s) of
                   (Some mode, Some ob) \<Rightarrow>
                     (if mode \<noteq> [] then resizeAnnotation ty i mode dx dy ob s else Inr s)
                 | _ \<Rightarrow> Inr s)))"

section \<open>Mouse handlers (tool-manager.js)\<close>

definition handleMouseDown :: "real \<Rightarrow> real \<Rightarrow> state \<Rightarrow> state" where
  "handleMouseDown x y s =
     (if isEditingText s then confirmTextInput s
      else if currentTool s = ''select'' then handleSelectMouseDown x y s
      else if currentTool s = ''text'' then showTextInput x y s
      else
        (let s1 = s\<lparr>isDrawing := True\<rparr> in
         if currentTool s1 = ''pen'' then
           (case addPoint x y (newStroke (color s1) (lineWidth s1), heap s1, nextAddr s1) of
              (st, h, n) \<Rightarrow> s1\<lparr>currentStroke := Some st, heap := h, nextAddr := n\<rparr>)
         else if currentTool s1 = ''arrow'' then
           s1\<lparr>currentArrow := Some (newArrow x y (color s1) (lineWidth s1))\<rparr>
         else if currentTool s1 = ''rectangle'' then
           s1\<lparr>currentRectangle := Some (newRectangle x y (color s1) (lineWidth s1) (filled s1))\<rparr>
         else if currentTool s1 = ''circle'' then
           s1\<lparr>currentEllipse := Some (newEllipse x y (color s1) (lineWidth s1) (filled s1))\<rparr>
         else if currentTool s1 = ''blur'' then
           s1\<lparr>currentBlur := Some (newBlurRegion x y)\<rparr>
         else s1\<lparr>isDrawing := False\<rparr>))"

definition handleMouseMove :: "real \<Rightarrow> real \<Rightarrow> state \<Rightarrow> error + state" where
  "handleMouseMove x y s =
     (if currentTool s = ''select'' \<and> truthyMode (dragMode s) \<and> selection s \<noteq> None
      then handleSelectMouseMove x y s
      else if \<not> isDrawing s then Inr s
      else (case (currentTool s = ''pen'', currentStroke s) of
              (True, Some st0) \<Rightarrow>
                (case addPoint x y (st0, heap s, nextAddr s) of
                   (st, h, n) \<Rightarrow> Inr (s\<lparr>currentStroke := Some st, heap := h, nextAddr := n\<rparr>))
            | _ \<Rightarrow> Inr (scheduleShapeRedraw x y s)))"

definition handleMouseUp :: "state \<Rightarrow> state" where
  "handleMouseUp s =
     (if currentTool s = ''select'' then s\<lparr>dragMode := None\<rparr>
      else if \<not> isDrawing s then s
      else
        (let s1 = (if rafId s then s\<lparr>rafId := False, pendingCoords := None\<rparr> else s);
             s2 = s1\<lparr>isDrawing := False\<rparr>
         in
         if currentTool s2 = ''pen'' \<and> currentStroke s2 \<noteq> None then
           (case currentStroke s2 of
              Some st \<Rightarrow>
                (if length (s_points st) > 0
                 then saveToHistory (s2\<lparr>strokes := strokes s2 @ [st]\<rparr>)
                 else s2)\<lparr>currentStroke := None\<rparr>
            | None \<Rightarrow> s2)
         else if currentTool s2 = ''arrow'' \<and> currentArrow s2 \<noteq> None then
           (case currentArrow s2 of
              Some a \<Rightarrow>
                (let dx = a_endX a - a_startX a;
                     dy = a_endY a - a_startY a;
                     len = sqrt (dx * dx + dy * dy)
                 in (if len > minArrowLength
                     then saveToHistory (s2\<lparr>arrows := arrows s2 @ [a]\<rparr>)
                     else s2)\<lparr>currentArrow := None\<rparr>)
            | None \<Rightarrow> s2)
         else if currentTool s2 = ''rectangle'' \<and> currentRectangle s2 \<noteq> None then
           (case currentRectangle s2 of
              Some r \<Rightarrow>
                (let size = \<bar>r_width r\<bar> + \<bar>r_height r\<bar>
                 in (if size > minShapeSize
                     then saveToHistory (s2\<lparr>rectangles := rectangles s2 @ [r]\<rparr>)
                     else s2)\<lparr>currentRectangle := None\<rparr>)
            | None \<Rightarrow> s2)
         else if currentTool s2 = ''circle'' \<and> currentEllipse s2 \<noteq> None then
           (case currentEllipse s2 of
              Some e \<Rightarrow>
                (let size = e_radiusX e + e_radiusY e
                 in (if size > minArrowLength
                     then saveToHistory (s2\<lparr>ellipses := ellipses s2 @ [e]\<rparr>)
                     else s2)\<lparr>currentEllipse := None\<rparr>)
            | None \<Rightarrow> s2)
         else if currentTool s2 = ''blur'' \<and> currentBlur s2 \<noteq> None then
           (case currentBlur s2 of
              Some b \<Rightarrow>
                (let size = \<bar>bl_width b\<bar> + \<bar>bl_height b\<bar>
                 in (if size > minShapeSize
                     then saveToHistory (s2\<lparr>blurs := blurs s2 @ [b]\<rparr>)
                     else s2)\<lparr>currentBlur := None\<rparr>)
            | None \<Rightarrow> s2)
         else s2))"

section \<open>Rendering a stroke (canvas-renderer.js)\<close>

text \<open>
  What \<open>drawStroke\<close> paints, as the list of the paths it fills or strokes: a filled
  circle for a stroke of one point, one polyline for two points or more, nothing for
  none.
\<close>

datatype drawOp =
  FillArc real real real string
| StrokePolyline "point list" string real

definition drawStroke :: "heap \<Rightarrow> stroke \<Rightarrow> drawOp list" where
  "drawStroke h st =
     (let pts = map h (s_points st) in
      if length pts < 2 then
        (case pts of
           [point] \<Rightarrow> [FillArc (p_x point) (p_y point) (s_lineWidth st / 2) (s_color st)]
         | _ \<Rightarrow> [])
      else [StrokePolyline pts (s_color st) (s_lineWidth st)])"

section \<open>Events (editor.js)\<close>

text \<open>
  The listeners \<open>setupCanvasEvents\<close>, \<open>setupKeyboardShortcuts\<close>, \<open>setupToolbar\<close> and
  \<open>setupTextInput\<close> register, as one step function. Mouse events carry the canvas
  coordinates \<open>getCanvasCoords\<close> computes. \<open>mouseleave\<close> has the listener of
  \<open>mouseup\<close>. The keyboard shortcuts do nothing while the text input is open.
\<close>

datatype event =
  MouseDown real real
| MouseMove real real
| MouseUp
| MouseLeave
| AnimationFrame
| ToolbarClick string
| TypeText jsString
| TextKeyEnter
| TextKeyEscape
| TextBlurTimeout
| KeyUndo
| KeyRedo
| KeyTool string

definition step :: "event \<Rightarrow> state \<Rightarrow> error + state" where
  "step ev s =
     (case ev of
        MouseDown x y \<Rightarrow> Inr (handleMouseDown x y s)
      | MouseMove x y \<Rightarrow> handleMouseMove x y s
      | MouseUp \<Rightarrow> Inr (handleMouseUp s)
      | MouseLeave \<Rightarrow> Inr (handleMouseUp s)
      | AnimationFrame \<Rightarrow> Inr (animationFrame s)
      | ToolbarClick tool \<Rightarrow> toolbarClick tool s
      | TypeText v \<Rightarrow> Inr (s\<lparr>textInputValue := v\<rparr>)
      | TextKeyEnter \<Rightarrow> Inr (confirmTextInput s)
      | TextKeyEscape \<Rightarrow> Inr (cancelTextInput s)
      | TextBlurTimeout \<Rightarrow> Inr (if isEditingText s then confirmTextInput s else s)
      | KeyUndo \<Rightarrow> (if isEditingText s then Inr s else undo s)
      | KeyRedo \<Rightarrow> (if isEditingText s then Inr s else redo s)
      | KeyTool tool \<Rightarrow> (if isEditingText s then Inr s else toolbarClick tool s))"

fun run :: "event list \<Rightarrow> state \<Rightarrow> error + state" where
  "run [] s = Inr s"
| "run (ev # evs) s = (case step ev s of Inl e \<Rightarrow> Inl e | Inr s' \<Rightarrow> run evs s')"

section \<open>Views of a run and of the scene\<close>

text \<open>The outcome of a handler that may throw, seen through an observation of the state.\<close>

definition outcome :: "(state \<Rightarrow> 'a) \<Rightarrow> error + state \<Rightarrow> 'a option" where
  "outcome f r = (case r of Inl e \<Rightarrow> None | Inr s \<Rightarrow> Some (f s))"

text \<open>
  The editor after \<open>init\<close> has loaded an image: the first history entry is saved before
  any input arrives. Text is measured at zero width in the concrete runs below.
\<close>

definition noMeasure :: "real \<Rightarrow> jsString \<Rightarrow> real" where
  "noMeasure sz txt = 0"

definition loaded :: state where
  "loaded = saveToHistory (initialState noMeasure)"

text \<open>
  The structural content of the strokes of a history entry and of the live list: the
  points of every stroke, read from the store.
\<close>

definition entryStrokes :: "nat \<Rightarrow> state \<Rightarrow> point list list option" where
  "entryStrokes k s =
     (if k < length (history s)
      then Some (map (\<lambda>st. map (heap s) (s_points st)) (h_strokes (history s ! k)))
      else None)"

definition liveStrokes :: "state \<Rightarrow> point list list" where
  "liveStrokes s = map (\<lambda>st. map (heap s) (s_points st)) (strokes s)"

text \<open>
  What a gesture leaves behind, as relations between the state before and the state
  after. \<open>discarded s t\<close>: no list has changed and the history is as it was.
  \<open>committed s' t\<close>: the lists are those of \<open>s'\<close> and the history is that of one
  \<open>saveToHistory\<close> on \<open>s'\<close>.
\<close>

definition sameScene :: "state \<Rightarrow> state \<Rightarrow> bool" where
  "sameScene s t \<longleftrightarrow>
     strokes t = strokes s \<and> arrows t = arrows s \<and> rectangles t = rectangles s \<and>
     ellipses t = ellipses s \<and> blurs t = blurs s \<and> texts t = texts s"

definition sameHistory :: "state \<Rightarrow> state \<Rightarrow> bool" where
  "sameHistory s t \<longleftrightarrow> history t = history s \<and> historyIndex t = historyIndex s"

definition discarded :: "state \<Rightarrow> state \<Rightarrow> bool" where
  "discarded s t \<longleftrightarrow> sameScene s t \<and> sameHistory s t"

definition committed :: "state \<Rightarrow> state \<Rightarrow> bool" where
  "committed s' t \<longleftrightarrow> sameScene s' t \<and> sameHistory (saveToHistory s') t"

text \<open>
  The hit test of one annotation, by type and position in its list, and the order of the
  types as the specification gives it: text, ellipse, rectangle, arrow, stroke,
  pixelation region.
\<close>

definition hits :: "state \<Rightarrow> real \<Rightarrow> real \<Rightarrow> annType \<Rightarrow> nat \<Rightarrow> bool" where
  "hits s x y ty i =
     (case ty of
        TText \<Rightarrow> i < length (texts s) \<and> pointInBounds x y (textGetBounds (measureText s) (texts s ! i))
      | TEllipse \<Rightarrow> i < length (ellipses s) \<and> pointInBounds x y (ellipseGetBounds (ellipses s ! i))
      | TRectangle \<Rightarrow>
          i < length (rectangles s) \<and> pointInBounds x y (rectangleGetBounds (rectangles s ! i))
      | TArrow \<Rightarrow>
          i < length (arrows s) \<and>
          distanceToLine x y (a_startX (arrows s ! i)) (a_startY (arrows s ! i))
            (a_endX (arrows s ! i)) (a_endY (arrows s ! i)) < 10
      | TStroke \<Rightarrow>
          i < length (strokes s) \<and>
          (\<exists>j. 1 \<le> j \<and> j < length (s_points (strokes s ! i)) \<and>
             distanceToLine x y
               (p_x (heap s (s_points (strokes s ! i) ! (j - 1))))
               (p_y (heap s (s_points (strokes s ! i) ! (j - 1))))
               (p_x (heap s (s_points (strokes s ! i) ! j)))
               (p_y (heap s (s_points (strokes s ! i) ! j))) < 10)
      | TBlur \<Rightarrow> i < length (blurs s) \<and> pointInBounds x y (blurGetBounds (blurs s ! i)))"

text \<open>The result of the loop of \<open>findAnnotationAtPoint\<close> over the list of one type.\<close>

definition lastHit :: "state \<Rightarrow> real \<Rightarrow> real \<Rightarrow> annType \<Rightarrow> nat option" where
  "lastHit s x y ty =
     (case ty of
        TText \<Rightarrow> scanDown (textHit s x y) (texts s) (length (texts s))
      | TEllipse \<Rightarrow> scanDown (ellipseHit x y) (ellipses s) (length (ellipses s))
      | TRectangle \<Rightarrow> scanDown (rectangleHit x y) (rectangles s) (length (rectangles s))
      | TArrow \<Rightarrow> scanDown (arrowHit x y) (arrows s) (length (arrows s))
      | TStroke \<Rightarrow> scanDown (strokeHit s x y) (strokes s) (length (strokes s))
      | TBlur \<Rightarrow> scanDown (blurHit x y) (blurs s) (length (blurs s)))"

definition specPriority :: "annType \<Rightarrow> nat" where
  "specPriority ty =
     (case ty of TText \<Rightarrow> 0 | TEllipse \<Rightarrow> 1 | TRectangle \<Rightarrow> 2 | TArrow \<Rightarrow> 3 | TStroke \<Rightarrow> 4
      | TBlur \<Rightarrow> 5)"

text \<open>
  The selection is never a stroke of fewer than two points: when it is a stroke, the
  stroke is in the list and has two points at least.
\<close>

definition dotNeverSelected :: "state \<Rightarrow> bool" where
  "dotNeverSelected s =
     (case selection s of
        Some (TStroke, i) \<Rightarrow> i < length (strokes s) \<and> 2 \<le> length (s_points (strokes s ! i))
      | _ \<Rightarrow> True)"

text \<open>
  The strokes that hold point objects: those of the live list and of the history entries,
  and the stroke in progress with its points. \<open>allocated\<close>: every point object they
  hold has been allocated. \<open>dotSafe a\<close>: the point object at \<open>a\<close> belongs to strokes
  of that single point only, and is not in the stroke in progress.
\<close>

definition knownStrokes :: "state \<Rightarrow> stroke list" where
  "knownStrokes s = strokes s @ concat (map h_strokes (history s))"

definition currentPoints :: "state \<Rightarrow> addr list" where
  "currentPoints s = (case currentStroke s of None \<Rightarrow> [] | Some c \<Rightarrow> s_points c)"

definition allocated :: "state \<Rightarrow> bool" where
  "allocated s \<longleftrightarrow>
     (\<forall>st \<in> set (knownStrokes s). \<forall>a \<in> set (s_points st). a < nextAddr s) \<and>
     (\<forall>a \<in> set (currentPoints s). a < nextAddr s)"

definition dotSafe :: "addr \<Rightarrow> state \<Rightarrow> bool" where
  "dotSafe a s \<longleftrightarrow>
     a < nextAddr s \<and>
     (\<forall>st \<in> set (knownStrokes s). a \<in> set (s_points st) \<longrightarrow> s_points st = [a]) \<and>
     a \<notin> set (currentPoints s)"

text \<open>How a handler may change the strokes, the store's next address and the stroke in progress.\<close>

definition evolves :: "state \<Rightarrow> state \<Rightarrow> bool" where
  "evolves s t \<longleftrightarrow>
     nextAddr s \<le> nextAddr t \<and>
     (\<forall>st \<in> set (knownStrokes t).
        st \<in> set (knownStrokes s) \<or> s_points st = currentPoints s) \<and>
     (currentPoints t = [] \<or> currentPoints t = currentPoints s \<or>
      (nextAddr t = Suc (nextAddr s) \<and>
       (currentPoints t = [nextAddr s] \<or> currentPoints t = currentPoints s @ [nextAddr s])))"

subsection \<open>Concrete sessions\<close>

text \<open>
  A pen stroke from (0,0) to (10,10) is drawn and committed; then the select tool picks
  it up at (5,5).
\<close>

definition penSession :: "event list" where
  "penSession =
     [ToolbarClick ''pen'', MouseDown 0 0, MouseMove 10 10, MouseUp,
      ToolbarClick ''select'', MouseDown 5 5]"

text \<open>
  A rectangle from (100,100) to (300,250) is drawn and committed; then the select tool
  drags it by 10 to the right.
\<close>

definition rectangleSession :: "event list" where
  "rectangleSession =
     [ToolbarClick ''rectangle'', MouseDown 100 100, MouseMove 300 250, AnimationFrame, MouseUp,
      ToolbarClick ''select'', MouseDown 150 150, MouseMove 160 150, MouseUp]"

text \<open>
  An arrow in progress: with the arrow tool, the mouse goes down at (0,0) and moves to
  (d,0), and the animation frame has applied the move.
\<close>

definition arrowDrag :: "real \<Rightarrow> state" where
  "arrowDrag d =
     animationFrame
       (scheduleShapeRedraw d 0 (handleMouseDown 0 0 (loaded\<lparr>currentTool := ''arrow''\<rparr>)))"

text \<open>The text input opened at (50,50) with the text tool, and a text typed into it.\<close>

definition textOpen :: "jsString \<Rightarrow> state" where
  "textOpen v = (showTextInput 50 50 (loaded\<lparr>currentTool := ''text''\<rparr>))\<lparr>textInputValue := v\<rparr>"

text \<open>
  A scene for the hit test: one arrow from (0,0) to (100,0) and two overlapping
  rectangles, at (200,200) and at (220,220), each 50 by 50.
\<close>

definition hitScene :: state where
  "hitScene =
     loaded\<lparr>arrows := [(newArrow 0 0 ''#ef4444'' 4)\<lparr>a_endX := 100\<rparr>],
            rectangles :=
              [(newRectangle 200 200 ''#ef4444'' 4 False)\<lparr>r_width := 50, r_height := 50\<rparr>,
               (newRectangle 220 220 ''#ef4444'' 4 False)\<lparr>r_width := 50, r_height := 50\<rparr>]\<rparr>"

text \<open>
  A rectangle of 8 by 8 at the origin is drawn and committed, selected with a click at
  (4,4), and its south-east handle is grabbed at (9,9).
\<close>

definition smallRectangleSession :: "event list" where
  "smallRectangleSession =
     [ToolbarClick ''rectangle'', MouseDown 0 0, MouseMove 8 8, AnimationFrame, MouseUp,
      ToolbarClick ''select'', MouseDown 4 4, MouseUp, MouseDown 9 9]"

text \<open>
  A horizontal arrow from (0,0) to (100,0) is drawn and committed, selected with a click
  at (50,0), and the handle at its end is grabbed at (100,0). \<open>sessionArrow endX\<close> is
  that arrow with its end at \<open>(endX, 0)\<close>.
\<close>

definition arrowResizeSession :: "event list" where
  "arrowResizeSession =
     [ToolbarClick ''arrow'', MouseDown 0 0, MouseMove 100 0, AnimationFrame, MouseUp,
      ToolbarClick ''select'', MouseDown 50 0, MouseUp, MouseDown 100 0]"

definition sessionArrow :: "real \<Rightarrow> arrow" where
  "sessionArrow endX = (newArrow 0 0 ''#ef4444'' 4)\<lparr>a_endX := endX\<rparr>"

text \<open>
  The state of a resize drag of the first arrow, grabbed at (100,0) when its bounds were
  (0,0,100,0).
\<close>

definition arrowGrabbed :: "state \<Rightarrow> bool" where
  "arrowGrabbed s \<longleftrightarrow>
     currentTool s = ''select'' \<and> selection s = Some (TArrow, 0) \<and>
     dragMode s = Some ''resize-ne'' \<and> dragStartX s = 100 \<and> dragStartY s = 0 \<and>
     originalBounds s = Some \<lparr>b_x = 0, b_y = 0, b_width = 100, b_height = 0\<rparr>"

section \<open>Properties of the history\<close>

lemma copyStroke_id: "copyStroke st = st"
  by (simp add: copyStroke_def newStroke_def)

lemma copyArrow_id: "copyArrow a = a"
  by (simp add: copyArrow_def newArrow_def)

lemma copyRectangle_id: "copyRectangle r = r"
  by (simp add: copyRectangle_def newRectangle_def)

lemma copyEllipse_id: "copyEllipse e = e"
  by (simp add: copyEllipse_def newEllipse_def)

lemma copyBlur_id: "copyBlur b = b"
  by (simp add: copyBlur_def newBlurRegion_def)

lemma copyText_id: "copyText t = t"
  by (simp add: copyText_def newTextAnnotation_def)

lemmas copy_ids =
  copyStroke_id copyArrow_id copyRectangle_id copyEllipse_id copyBlur_id copyText_id





section \<open>Evaluating concrete sessions\<close>

lemma sqrt_less_10: "sqrt v < 10 \<longleftrightarrow> v < 100"
proof -
  have "sqrt 100 = 10"
    using real_sqrt_abs [of 10] by simp
  then show ?thesis
    using real_sqrt_less_iff [of v 100] by simp
qed

lemma sqrt_less_tolerance: "sqrt v < hitTolerance \<longleftrightarrow> v < 100"
  by (simp add: hitTolerance_def sqrt_less_10)

lemma sqrt_greater_5: "sqrt v > 5 \<longleftrightarrow> v > 25"
proof -
  have "sqrt 25 = 5"
    using real_sqrt_abs [of 5] by simp
  then show ?thesis
    using real_sqrt_less_iff [of 25 v] by simp
qed

lemma sqrt_greater_minArrow: "sqrt v > minArrowLength \<longleftrightarrow> v > 25"
  by (simp add: minArrowLength_def sqrt_greater_5)

lemmas eval_defs =
  loaded_def initialState_def step_def outcome_def toolbarClick_def
  handleMouseDown_def handleMouseMove_def handleMouseUp_def animationFrame_def
  scheduleShapeRedraw_def saveToHistory_def snapshot_def copy_ids Let_def maxEntries_def
  slice0_def clearSelection_def newRectangle_def rectangleSetEnd_def minShapeSize_def
  handleSelectMouseDown_def hitAnnotation_def findAnnotationAtPoint_def undo_def redo_def
  restoreFromHistory_def rectangleHit_def rectangleGetBounds_def pointInBounds_def
  truthyMode_def handleSelectMouseMove_def moveAnnotation_def annotationBounds_def
  newStroke_def addPoint_def strokeHit_def distanceToLine_def sqrt_less_tolerance
  sqrt_greater_minArrow movePoints_def newArrow_def arrowSetEnd_def arrowHit_def
  confirmTextInput_def cancelTextInput_def showTextInput_def getHandleAtPoint_def
  handleSize_def strokeGetBounds_def resizeAnnotation_def resizeBounds_def
  applyBoundsToAnnotation_def modeIncludes_def trim_def jsWhitespace_def
  newTextAnnotation_def textBaselineRatio_def noMeasure_def jsOr_def jsDivide_def
  scaleArrow_def scalePoints_def scalePoint_def overflows_def boundsFields_def inRange_def
  overflowBound_def arrowGetBounds_def

section \<open>History entries and the point objects of strokes\<close>

text \<open>
  C1. The claim: every history entry is a fully deep copy, so that moving a live stroke
  leaves the stored entries structurally unchanged. The code copies the array of points
  of a stroke, not the point objects. In the pen session the entries saved at the commit
  (index 1) and at the start of the drag (index 2) both hold the stroke from (0,0) to
  (10,10); after the mouse has moved by (20,0) with the stroke selected, both entries
  read (20,0) to (30,10), and undo brings back the moved stroke.
\<close>

theorem history_entries_share_stroke_points:
  "outcome (entryStrokes 1) (run penSession loaded) =
     Some (Some [[\<lparr>p_x = 0, p_y = 0\<rparr>, \<lparr>p_x = 10, p_y = 10\<rparr>]]) \<and>
   outcome (entryStrokes 2) (run penSession loaded) =
     Some (Some [[\<lparr>p_x = 0, p_y = 0\<rparr>, \<lparr>p_x = 10, p_y = 10\<rparr>]]) \<and>
   outcome (entryStrokes 1) (run (penSession @ [MouseMove 25 5]) loaded) =
     Some (Some [[\<lparr>p_x = 20, p_y = 0\<rparr>, \<lparr>p_x = 30, p_y = 10\<rparr>]]) \<and>
   outcome (entryStrokes 2) (run (penSession @ [MouseMove 25 5]) loaded) =
     Some (Some [[\<lparr>p_x = 20, p_y = 0\<rparr>, \<lparr>p_x = 30, p_y = 10\<rparr>]]) \<and>
   outcome liveStrokes (run (penSession @ [MouseMove 25 5, MouseUp, KeyUndo]) loaded) =
     Some [[\<lparr>p_x = 20, p_y = 0\<rparr>, \<lparr>p_x = 30, p_y = 10\<rparr>]]"
  by (simp add: penSession_def entryStrokes_def liveStrokes_def eval_defs)

section \<open>Undo and redo\<close>

text \<open>
  When the live lists are those of the current history entry, as after the commit of a
  shape or of a text, undo followed by redo brings the same lists back.
\<close>

lemma undo_redo_synced:
  assumes "0 < historyIndex s"
    and "historyIndex s < int (length (history s))"
    and "history s ! nat (historyIndex s) = snapshot s"
  shows "\<exists>s1 s2. undo s = Inr s1 \<and> redo s1 = Inr s2 \<and> sameScene s s2 \<and> sameHistory s s2 \<and>
           heap s2 = heap s"
proof -
  let ?u = "clearSelection (s\<lparr>historyIndex := historyIndex s - 1\<rparr>)"
  let ?e = "history s ! nat (historyIndex s - 1)"
  let ?s1 = "?u\<lparr>strokes := map copyStroke (h_strokes ?e),
                 arrows := map copyArrow (h_arrows ?e),
                 rectangles := map copyRectangle (h_rectangles ?e),
                 ellipses := map copyEllipse (h_ellipses ?e),
                 blurs := map copyBlur (h_blurs ?e),
                 texts := map copyText (h_texts ?e)\<rparr>"
  have u: "undo s = Inr ?s1"
    using assms(1,2) by (simp add: undo_def restoreFromHistory_def clearSelection_def Let_def)
  have ids: "copyStroke = id" "copyArrow = id" "copyRectangle = id" "copyEllipse = id"
      "copyBlur = id" "copyText = id"
    by (rule ext, simp add: copy_ids)+
  have r: "\<exists>s2. redo ?s1 = Inr s2 \<and> sameScene s s2 \<and> sameHistory s s2 \<and> heap s2 = heap s"
    using assms
    by (simp add: redo_def restoreFromHistory_def clearSelection_def Let_def sameScene_def
        sameHistory_def snapshot_def ids)
  show ?thesis
    using u r by blast
qed

text \<open>
  C2. The claim: whenever undo is enabled, undo followed by redo gives back the lists as
  they were just before the undo, also after a drag whose snapshot was taken at its
  start. In the rectangle session the rectangle stands at x = 110 after the drag, with
  the history index at 2; after undo and redo it stands at x = 100: the entry that redo
  restores was saved before the drag moved the rectangle.
\<close>

theorem undo_redo_loses_drag:
  "outcome historyIndex (run rectangleSession loaded) = Some 2 \<and>
   outcome rectangles (run rectangleSession loaded) =
     Some [\<lparr>r_x = 110, r_y = 100, r_width = 200, r_height = 150,
            r_color = ''#ef4444'', r_lineWidth = 4, r_filled = False\<rparr>] \<and>
   outcome rectangles (run (rectangleSession @ [KeyUndo, KeyRedo]) loaded) =
     Some [\<lparr>r_x = 100, r_y = 100, r_width = 200, r_height = 150,
            r_color = ''#ef4444'', r_lineWidth = 4, r_filled = False\<rparr>]"
  by (simp add: rectangleSession_def eval_defs)

section \<open>Release of a drawing gesture\<close>

lemma handleMouseUp_pen:
  assumes "isDrawing s" and "currentTool s = ''pen''" and "currentStroke s = Some st"
  shows "if length (s_points st) \<ge> 1
         then committed (s\<lparr>strokes := strokes s @ [st]\<rparr>) (handleMouseUp s)
         else discarded s (handleMouseUp s)"
  using assms
  by (cases "s_points st")
    (simp_all add: handleMouseUp_def Let_def committed_def discarded_def sameScene_def
      sameHistory_def saveToHistory_def snapshot_def)

lemma handleMouseUp_arrow:
  assumes "isDrawing s" and "currentTool s = ''arrow''" and "currentArrow s = Some a"
  shows "if sqrt ((a_endX a - a_startX a) * (a_endX a - a_startX a) +
                  (a_endY a - a_startY a) * (a_endY a - a_startY a)) > 5
         then committed (s\<lparr>arrows := arrows s @ [a]\<rparr>) (handleMouseUp s)
         else discarded s (handleMouseUp s)"
  using assms
  by (simp add: handleMouseUp_def Let_def committed_def discarded_def sameScene_def
      sameHistory_def saveToHistory_def snapshot_def minArrowLength_def)

lemma handleMouseUp_rectangle:
  assumes "isDrawing s" and "currentTool s = ''rectangle''" and "currentRectangle s = Some r"
  shows "if \<bar>r_width r\<bar> + \<bar>r_height r\<bar> > 10
         then committed (s\<lparr>rectangles := rectangles s @ [r]\<rparr>) (handleMouseUp s)
         else discarded s (handleMouseUp s)"
  using assms
  by (simp add: handleMouseUp_def Let_def committed_def discarded_def sameScene_def
      sameHistory_def saveToHistory_def snapshot_def minShapeSize_def)

lemma handleMouseUp_circle:
  assumes "isDrawing s" and "currentTool s = ''circle''" and "currentEllipse s = Some e"
  shows "if e_radiusX e + e_radiusY e > 5
         then committed (s\<lparr>ellipses := ellipses s @ [e]\<rparr>) (handleMouseUp s)
         else discarded s (handleMouseUp s)"
  using assms
  by (simp add: handleMouseUp_def Let_def committed_def discarded_def sameScene_def
      sameHistory_def saveToHistory_def snapshot_def minArrowLength_def)

lemma handleMouseUp_blur:
  assumes "isDrawing s" and "currentTool s = ''blur''" and "currentBlur s = Some b"
  shows "if \<bar>bl_width b\<bar> + \<bar>bl_height b\<bar> > 10
         then committed (s\<lparr>blurs := blurs s @ [b]\<rparr>) (handleMouseUp s)
         else discarded s (handleMouseUp s)"
  using assms
  by (simp add: handleMouseUp_def Let_def committed_def discarded_def sameScene_def
      sameHistory_def saveToHistory_def snapshot_def minShapeSize_def)

text \<open>
  C6. On release, the annotation in progress is pushed into its list, with exactly one
  history save, if and only if it crosses its threshold: a stroke with at least one point,
  an arrow longer than 5, a rectangle or a pixelation region with
  \<open>|width| + |height| > 10\<close>, an ellipse with \<open>radiusX + radiusY > 5\<close>. Below the
  threshold no list changes and the history is as it was.
\<close>

theorem release_commit_thresholds:
  assumes "isDrawing s"
  shows "(currentTool s = ''pen'' \<and> currentStroke s = Some st \<longrightarrow>
            (if length (s_points st) \<ge> 1
             then committed (s\<lparr>strokes := strokes s @ [st]\<rparr>) (handleMouseUp s)
             else discarded s (handleMouseUp s))) \<and>
         (currentTool s = ''arrow'' \<and> currentArrow s = Some a \<longrightarrow>
            (if sqrt ((a_endX a - a_startX a) * (a_endX a - a_startX a) +
                      (a_endY a - a_startY a) * (a_endY a - a_startY a)) > 5
             then committed (s\<lparr>arrows := arrows s @ [a]\<rparr>) (handleMouseUp s)
             else discarded s (handleMouseUp s))) \<and>
         (currentTool s = ''rectangle'' \<and> currentRectangle s = Some r \<longrightarrow>
            (if \<bar>r_width r\<bar> + \<bar>r_height r\<bar> > 10
             then committed (s\<lparr>rectangles := rectangles s @ [r]\<rparr>) (handleMouseUp s)
             else discarded s (handleMouseUp s))) \<and>
         (currentTool s = ''circle'' \<and> currentEllipse s = Some e \<longrightarrow>
            (if e_radiusX e + e_radiusY e > 5
             then committed (s\<lparr>ellipses := ellipses s @ [e]\<rparr>) (handleMouseUp s)
             else discarded s (handleMouseUp s))) \<and>
         (currentTool s = ''blur'' \<and> currentBlur s = Some b \<longrightarrow>
            (if \<bar>bl_width b\<bar> + \<bar>bl_height b\<bar> > 10
             then committed (s\<lparr>blurs := blurs s @ [b]\<rparr>) (handleMouseUp s)
             else discarded s (handleMouseUp s)))"
  using handleMouseUp_pen [OF assms, of st] handleMouseUp_arrow [OF assms, of a]
    handleMouseUp_rectangle [OF assms, of r] handleMouseUp_circle [OF assms, of e]
    handleMouseUp_blur [OF assms, of b]
  by blast

text \<open>An arrow dragged by 6 is committed with one new history entry; one dragged by 4 is not.\<close>

theorem release_commit_thresholds_witness:
  "isDrawing (arrowDrag 6) \<and> currentTool (arrowDrag 6) = ''arrow'' \<and>
   currentArrow (arrowDrag 6) = Some ((newArrow 0 0 ''#ef4444'' 4)\<lparr>a_endX := 6\<rparr>) \<and>
   committed ((arrowDrag 6)\<lparr>arrows := [(newArrow 0 0 ''#ef4444'' 4)\<lparr>a_endX := 6\<rparr>]\<rparr>)
     (handleMouseUp (arrowDrag 6)) \<and>
   length (history (handleMouseUp (arrowDrag 6))) = 2 \<and>
   isDrawing (arrowDrag 4) \<and> currentTool (arrowDrag 4) = ''arrow'' \<and>
   currentArrow (arrowDrag 4) = Some ((newArrow 0 0 ''#ef4444'' 4)\<lparr>a_endX := 4\<rparr>) \<and>
   discarded (arrowDrag 4) (handleMouseUp (arrowDrag 4)) \<and>
   length (history (handleMouseUp (arrowDrag 4))) = 1"
proof -
  have d6: "isDrawing (arrowDrag 6)" and d4: "isDrawing (arrowDrag 4)"
    by (simp_all add: arrowDrag_def eval_defs)
  have t6: "currentTool (arrowDrag 6) = ''arrow''" and t4: "currentTool (arrowDrag 4) = ''arrow''"
    by (simp_all add: arrowDrag_def eval_defs)
  have a6: "currentArrow (arrowDrag 6) = Some ((newArrow 0 0 ''#ef4444'' 4)\<lparr>a_endX := 6\<rparr>)"
    and a4: "currentArrow (arrowDrag 4) = Some ((newArrow 0 0 ''#ef4444'' 4)\<lparr>a_endX := 4\<rparr>)"
    by (simp_all add: arrowDrag_def eval_defs)
  have e6: "arrows (arrowDrag 6) = []" and e4: "history (arrowDrag 4) = history loaded"
    by (simp_all add: arrowDrag_def eval_defs)
  have c6: "committed ((arrowDrag 6)\<lparr>arrows := [(newArrow 0 0 ''#ef4444'' 4)\<lparr>a_endX := 6\<rparr>]\<rparr>)
     (handleMouseUp (arrowDrag 6))"
    using release_commit_thresholds [OF d6, of _ "(newArrow 0 0 ''#ef4444'' 4)\<lparr>a_endX := 6\<rparr>"]
      t6 a6 e6
    by (simp add: newArrow_def sqrt_greater_5)
  have c4: "discarded (arrowDrag 4) (handleMouseUp (arrowDrag 4))"
    using release_commit_thresholds [OF d4, of _ "(newArrow 0 0 ''#ef4444'' 4)\<lparr>a_endX := 4\<rparr>"]
      t4 a4
    by (simp add: newArrow_def sqrt_greater_5)
  have l6: "length (history (handleMouseUp (arrowDrag 6))) = 2"
    using c6 by (simp add: committed_def sameHistory_def arrowDrag_def eval_defs)
  have l4: "length (history (handleMouseUp (arrowDrag 4))) = 1"
    using c4 e4 by (simp add: discarded_def sameHistory_def eval_defs)
  show ?thesis
    using d6 t6 a6 c6 l6 d4 t4 a4 c4 l4 by blast
qed

section \<open>The pointer leaves the canvas\<close>

text \<open>
  C3, as claimed: a drawing gesture interrupted by the pointer leaving the canvas is
  abandoned whatever its size. An arrow dragged from (0,0) to (100,0) is still in progress,
  the list of arrows empty and the history at its first entry; when the pointer leaves,
  the arrow is in the list and the history has a second entry with it.
\<close>

theorem mouseleave_commits_arrow:
  "outcome arrows
     (run [ToolbarClick ''arrow'', MouseDown 0 0, MouseMove 100 0, AnimationFrame] loaded) =
     Some [] \<and>
   outcome history
     (run [ToolbarClick ''arrow'', MouseDown 0 0, MouseMove 100 0, AnimationFrame] loaded) =
     Some [\<lparr>h_strokes = [], h_arrows = [], h_rectangles = [], h_ellipses = [],
            h_blurs = [], h_texts = []\<rparr>] \<and>
   outcome arrows
     (run [ToolbarClick ''arrow'', MouseDown 0 0, MouseMove 100 0, AnimationFrame, MouseLeave]
        loaded) =
     Some [\<lparr>a_startX = 0, a_startY = 0, a_endX = 100, a_endY = 0,
            a_color = ''#ef4444'', a_lineWidth = 4\<rparr>] \<and>
   outcome history
     (run [ToolbarClick ''arrow'', MouseDown 0 0, MouseMove 100 0, AnimationFrame, MouseLeave]
        loaded) =
     Some [\<lparr>h_strokes = [], h_arrows = [], h_rectangles = [], h_ellipses = [],
            h_blurs = [], h_texts = []\<rparr>,
           \<lparr>h_strokes = [],
            h_arrows = [\<lparr>a_startX = 0, a_startY = 0, a_endX = 100, a_endY = 0,
                         a_color = ''#ef4444'', a_lineWidth = 4\<rparr>],
            h_rectangles = [], h_ellipses = [], h_blurs = [], h_texts = []\<rparr>]"
  by (simp add: eval_defs)

text \<open>
  C3, amended. The pointer leaving the canvas ends a drawing gesture exactly as a release
  does: the annotation in progress is pushed into its list, with one history save, when
  it crosses its commit threshold, and is abandoned, with no list changed and no history
  entry, only when it does not.
\<close>

theorem mouseleave_is_release:
  assumes "isDrawing s"
  shows "step MouseLeave s = step MouseUp s \<and>
         (\<exists>t. step MouseLeave s = Inr t \<and>
           (currentTool s = ''pen'' \<and> currentStroke s = Some st \<longrightarrow>
              (if length (s_points st) \<ge> 1
               then committed (s\<lparr>strokes := strokes s @ [st]\<rparr>) t else discarded s t)) \<and>
           (currentTool s = ''arrow'' \<and> currentArrow s = Some a \<longrightarrow>
              (if sqrt ((a_endX a - a_startX a) * (a_endX a - a_startX a) +
                        (a_endY a - a_startY a) * (a_endY a - a_startY a)) > 5
               then committed (s\<lparr>arrows := arrows s @ [a]\<rparr>) t else discarded s t)) \<and>
           (currentTool s = ''rectangle'' \<and> currentRectangle s = Some r \<longrightarrow>
              (if \<bar>r_width r\<bar> + \<bar>r_height r\<bar> > 10
               then committed (s\<lparr>rectangles := rectangles s @ [r]\<rparr>) t else discarded s t)) \<and>
           (currentTool s = ''circle'' \<and> currentEllipse s = Some e \<longrightarrow>
              (if e_radiusX e + e_radiusY e > 5
               then committed (s\<lparr>ellipses := ellipses s @ [e]\<rparr>) t else discarded s t)) \<and>
           (currentTool s = ''blur'' \<and> currentBlur s = Some b \<longrightarrow>
              (if \<bar>bl_width b\<bar> + \<bar>bl_height b\<bar> > 10
               then committed (s\<lparr>blurs := blurs s @ [b]\<rparr>) t else discarded s t)))"
proof -
  have leave: "step MouseLeave s = Inr (handleMouseUp s)"
    and up: "step MouseUp s = Inr (handleMouseUp s)"
    by (simp_all add: step_def)
  show ?thesis
    unfolding leave up
    using handleMouseUp_pen [OF assms, of st] handleMouseUp_arrow [OF assms, of a]
      handleMouseUp_rectangle [OF assms, of r] handleMouseUp_circle [OF assms, of e]
      handleMouseUp_blur [OF assms, of b]
    by blast
qed

theorem mouseleave_is_release_witness:
  "isDrawing (arrowDrag 100) \<and> currentTool (arrowDrag 100) = ''arrow'' \<and>
   currentArrow (arrowDrag 100) = Some ((newArrow 0 0 ''#ef4444'' 4)\<lparr>a_endX := 100\<rparr>) \<and>
   step MouseLeave (arrowDrag 100) = step MouseUp (arrowDrag 100) \<and>
   (\<exists>t. step MouseLeave (arrowDrag 100) = Inr t \<and>
        committed ((arrowDrag 100)\<lparr>arrows := [(newArrow 0 0 ''#ef4444'' 4)\<lparr>a_endX := 100\<rparr>]\<rparr>) t)"
proof -
  have d: "isDrawing (arrowDrag 100)"
    and t: "currentTool (arrowDrag 100) = ''arrow''"
    and a: "currentArrow (arrowDrag 100) = Some ((newArrow 0 0 ''#ef4444'' 4)\<lparr>a_endX := 100\<rparr>)"
    and e: "arrows (arrowDrag 100) = []"
    by (simp_all add: arrowDrag_def eval_defs)
  let ?A = "(newArrow 0 0 ''#ef4444'' 4)\<lparr>a_endX := 100\<rparr>"
  note release = mouseleave_is_release [OF d, of _ ?A]
  have same: "step MouseLeave (arrowDrag 100) = step MouseUp (arrowDrag 100)"
    using release by blast
  obtain u where u: "step MouseLeave (arrowDrag 100) = Inr u"
    and arr: "currentTool (arrowDrag 100) = ''arrow'' \<and> currentArrow (arrowDrag 100) = Some ?A \<longrightarrow>
      (if sqrt ((a_endX ?A - a_startX ?A) * (a_endX ?A - a_startX ?A) +
                (a_endY ?A - a_startY ?A) * (a_endY ?A - a_startY ?A)) > 5
       then committed ((arrowDrag 100)\<lparr>arrows := arrows (arrowDrag 100) @ [?A]\<rparr>) u
       else discarded (arrowDrag 100) u)"
    using release by blast
  have "committed ((arrowDrag 100)\<lparr>arrows := [?A]\<rparr>) u"
    using arr t a e by (simp add: newArrow_def sqrt_greater_5)
  with u have "\<exists>t. step MouseLeave (arrowDrag 100) = Inr t \<and>
        committed ((arrowDrag 100)\<lparr>arrows := [?A]\<rparr>) t"
    by blast
  then show ?thesis
    using d t a same by blast
qed

section \<open>Text entry and the toolbar\<close>

lemma toolbarClick_cancels:
  assumes "isEditingText s" and "tool \<noteq> ''undo''" and "tool \<noteq> ''redo''"
  shows "\<exists>t. toolbarClick tool s = Inr t \<and> discarded s t \<and> currentTool t = tool \<and>
             \<not> isEditingText t \<and> pendingText t = None \<and> textInputValue t = []"
  using assms
  by (simp add: toolbarClick_def cancelTextInput_def clearSelection_def Let_def discarded_def
      sameScene_def sameHistory_def)

lemma confirmTextInput_commits:
  assumes "pendingText s = Some pt" and "trim (textInputValue s) \<noteq> []"
  shows "committed
           (s\<lparr>texts := texts s @
               [newTextAnnotation (pt_x pt) (pt_y pt) (trim (textInputValue s))
                  (pt_fontSize pt) (pt_color pt)]\<rparr>)
           (confirmTextInput s)"
  using assms
  by (simp add: confirmTextInput_def Let_def committed_def sameScene_def sameHistory_def
      saveToHistory_def snapshot_def)

lemma confirmTextInput_empty:
  assumes "trim (textInputValue s) = []"
  shows "discarded s (confirmTextInput s)"
  using assms
  by (simp add: confirmTextInput_def Let_def discarded_def sameScene_def sameHistory_def
      split: option.splits)

lemma cancelTextInput_discards: "discarded s (cancelTextInput s)"
  by (simp add: cancelTextInput_def discarded_def sameScene_def sameHistory_def)

text \<open>
  C4, as claimed: switching tools while the text entry is open confirms it first, and a
  non-empty text is committed with a history save. With the text \<open>hi\<close> typed into the
  open entry, Enter commits one text annotation; a click on the pen button instead
  leaves the list of texts empty and the history at its first entry, and the pen tool is
  active.
\<close>

theorem tool_switch_drops_text:
  "outcome texts
     (run [ToolbarClick ''text'', MouseDown 50 50, TypeText [0x68, 0x69], TextKeyEnter] loaded) =
     Some [\<lparr>t_x = 50, t_y = 346 / 5, t_text = [0x68, 0x69], t_fontSize = 24, t_color = ''#ef4444''\<rparr>] \<and>
   outcome texts
     (run [ToolbarClick ''text'', MouseDown 50 50, TypeText [0x68, 0x69], ToolbarClick ''pen''] loaded) =
     Some [] \<and>
   outcome history
     (run [ToolbarClick ''text'', MouseDown 50 50, TypeText [0x68, 0x69], ToolbarClick ''pen''] loaded) =
     Some [\<lparr>h_strokes = [], h_arrows = [], h_rectangles = [], h_ellipses = [],
            h_blurs = [], h_texts = []\<rparr>] \<and>
   outcome currentTool
     (run [ToolbarClick ''text'', MouseDown 50 50, TypeText [0x68, 0x69], ToolbarClick ''pen''] loaded) =
     Some ''pen'' \<and>
   outcome isEditingText
     (run [ToolbarClick ''text'', MouseDown 50 50, TypeText [0x68, 0x69], ToolbarClick ''pen''] loaded) =
     Some False"
  by (simp add: eval_defs)

text \<open>
  C4, amended. Switching tools while the text entry is open cancels the entry: whatever
  was typed, no text annotation is committed and no history entry is saved, the entry is
  closed and the new tool is active. Confirming with Enter commits a text annotation
  with one history save when the trimmed text is non-empty; Enter on an empty trimmed
  text, and Escape, change neither the lists nor the history.
\<close>

theorem tool_switch_cancels_text:
  assumes "isEditingText s" and "tool \<noteq> ''undo''" and "tool \<noteq> ''redo''"
  shows "(\<exists>t. step (ToolbarClick tool) s = Inr t \<and> discarded s t \<and> currentTool t = tool \<and>
              \<not> isEditingText t \<and> pendingText t = None) \<and>
         (pendingText s = Some pt \<and> trim (textInputValue s) \<noteq> [] \<longrightarrow>
            (\<exists>t. step TextKeyEnter s = Inr t \<and>
                 committed
                   (s\<lparr>texts := texts s @
                       [newTextAnnotation (pt_x pt) (pt_y pt) (trim (textInputValue s))
                          (pt_fontSize pt) (pt_color pt)]\<rparr>) t)) \<and>
         (trim (textInputValue s) = [] \<longrightarrow>
            (\<exists>t. step TextKeyEnter s = Inr t \<and> discarded s t)) \<and>
         (\<exists>t. step TextKeyEscape s = Inr t \<and> discarded s t)"
proof -
  have click: "step (ToolbarClick tool) s = toolbarClick tool s"
    and enter: "step TextKeyEnter s = Inr (confirmTextInput s)"
    and escape: "step TextKeyEscape s = Inr (cancelTextInput s)"
    by (simp_all add: step_def)
  show ?thesis
    unfolding click enter escape
    using toolbarClick_cancels [OF assms] confirmTextInput_commits [of s pt]
      confirmTextInput_empty [of s] cancelTextInput_discards [of s]
    by blast
qed

text \<open>
  With \<open>hi\<close> typed, a click on the pen button commits nothing. With \<open>hi\<close> between a space
  and a no-break space, Enter commits the text \<open>hi\<close>. With a no-break space, a line
  separator and a byte order mark only, the trimmed text is empty and Enter commits
  nothing.
\<close>

theorem tool_switch_cancels_text_witness:
  "isEditingText (textOpen [0x68, 0x69]) \<and> ''pen'' \<noteq> ''undo'' \<and> ''pen'' \<noteq> ''redo'' \<and>
   (\<exists>t. step (ToolbarClick ''pen'') (textOpen [0x68, 0x69]) = Inr t \<and>
        discarded (textOpen [0x68, 0x69]) t \<and> currentTool t = ''pen'' \<and> \<not> isEditingText t \<and>
        texts t = []) \<and>
   trim (textInputValue (textOpen [0x20, 0x68, 0x69, 0x00A0])) = [0x68, 0x69] \<and>
   (\<exists>t. step TextKeyEnter (textOpen [0x20, 0x68, 0x69, 0x00A0]) = Inr t \<and>
        texts t = [\<lparr>t_x = 50, t_y = 346 / 5, t_text = [0x68, 0x69], t_fontSize = 24,
                     t_color = ''#ef4444''\<rparr>] \<and>
        length (history t) = 2) \<and>
   isEditingText (textOpen [0x00A0, 0x2028, 0xFEFF]) \<and>
   trim (textInputValue (textOpen [0x00A0, 0x2028, 0xFEFF])) = [] \<and>
   (\<exists>t. step TextKeyEnter (textOpen [0x00A0, 0x2028, 0xFEFF]) = Inr t \<and>
        discarded (textOpen [0x00A0, 0x2028, 0xFEFF]) t \<and> texts t = [])"
proof -
  let ?hi = "textOpen [0x68, 0x69]" and ?pad = "textOpen [0x20, 0x68, 0x69, 0x00A0]"
    and ?blank = "textOpen [0x00A0, 0x2028, 0xFEFF]"
  have u: "''pen'' \<noteq> ''undo''" and r: "''pen'' \<noteq> ''redo''"
    by simp_all
  have e: "isEditingText ?hi" and tx: "texts ?hi = []"
    by (simp_all add: textOpen_def eval_defs)
  obtain t where t: "step (ToolbarClick ''pen'') ?hi = Inr t"
    and d: "discarded ?hi t" and c: "currentTool t = ''pen''"
    and n: "\<not> isEditingText t"
    using tool_switch_cancels_text [OF e u r] by blast
  have "texts t = []"
    using d tx by (simp add: discarded_def sameScene_def)
  then have click: "\<exists>t. step (ToolbarClick ''pen'') ?hi = Inr t \<and> discarded ?hi t \<and>
      currentTool t = ''pen'' \<and> \<not> isEditingText t \<and> texts t = []"
    using t d c n by blast
  have ep: "isEditingText ?pad"
    and pp: "pendingText ?pad =
      Some \<lparr>pt_x = 50, pt_y = 346 / 5, pt_fontSize = 24, pt_color = ''#ef4444''\<rparr>"
    and tp: "trim (textInputValue ?pad) = [0x68, 0x69]"
    and xp: "texts ?pad = []"
    by (simp_all add: textOpen_def eval_defs)
  have ne: "trim (textInputValue ?pad) \<noteq> []"
    using tp by simp
  obtain t' where t': "step TextKeyEnter ?pad = Inr t'"
    and c': "committed
       (?pad\<lparr>texts := texts ?pad @
          [newTextAnnotation 50 (346 / 5) (trim (textInputValue ?pad)) 24 ''#ef4444'']\<rparr>) t'"
    using tool_switch_cancels_text [OF ep u r, where pt =
        "\<lparr>pt_x = 50, pt_y = 346 / 5, pt_fontSize = 24, pt_color = ''#ef4444''\<rparr>"] pp ne
    by auto
  have enter: "\<exists>t. step TextKeyEnter ?pad = Inr t \<and>
      texts t = [\<lparr>t_x = 50, t_y = 346 / 5, t_text = [0x68, 0x69], t_fontSize = 24,
                   t_color = ''#ef4444''\<rparr>] \<and> length (history t) = 2"
  proof -
    have "length (history (saveToHistory (?pad\<lparr>texts := texts ?pad @
          [newTextAnnotation 50 (346 / 5) (trim (textInputValue ?pad)) 24 ''#ef4444'']\<rparr>))) = 2"
      by (simp add: textOpen_def eval_defs)
    then have "length (history t') = 2"
      using c' by (simp add: committed_def sameHistory_def)
    moreover have "texts t' = [\<lparr>t_x = 50, t_y = 346 / 5, t_text = [0x68, 0x69], t_fontSize = 24,
                   t_color = ''#ef4444''\<rparr>]"
      using c' tp xp by (simp add: committed_def sameScene_def newTextAnnotation_def)
    ultimately show ?thesis
      using t' by blast
  qed
  have eb: "isEditingText ?blank" and tb: "trim (textInputValue ?blank) = []"
    and xb: "texts ?blank = []"
    by (simp_all add: textOpen_def eval_defs)
  obtain t'' where t'': "step TextKeyEnter ?blank = Inr t''" and d'': "discarded ?blank t''"
    using tool_switch_cancels_text [OF eb u r] tb by blast
  have "texts t'' = []"
    using d'' xb by (simp add: discarded_def sameScene_def)
  then have blank: "\<exists>t. step TextKeyEnter ?blank = Inr t \<and> discarded ?blank t \<and> texts t = []"
    using t'' d'' by blast
  show ?thesis
    using e u r click tp enter eb tb blank by blast
qed

section \<open>Hit testing\<close>

lemma scanDown_Some:
  "scanDown hit xs n = Some i \<longleftrightarrow>
     i < n \<and> hit (xs ! i) \<and> (\<forall>j. i < j \<and> j < n \<longrightarrow> \<not> hit (xs ! j))"
proof (induction n)
  case 0
  then show ?case by simp
next
  case (Suc n)
  show ?case
  proof (cases "hit (xs ! n)")
    case True
    then show ?thesis
      by (auto simp: less_Suc_eq)
  next
    case False
    then show ?thesis
      using Suc by (auto simp: less_Suc_eq)
  qed
qed


text \<open>The inner loop finds a segment within the tolerance exactly when there is one.\<close>

lemma anySegmentNear_iff:
  "anySegmentNear x y ps \<longleftrightarrow>
     (\<exists>j. 1 \<le> j \<and> j < length ps \<and>
        distanceToLine x y (p_x (ps ! (j - 1))) (p_y (ps ! (j - 1)))
          (p_x (ps ! j)) (p_y (ps ! j)) < 10)"
proof (induction x y ps rule: anySegmentNear.induct)
  case (1 x y p1 p2 ps)
  let ?near = "\<lambda>qs j. distanceToLine x y (p_x (qs ! (j - 1))) (p_y (qs ! (j - 1)))
                  (p_x (qs ! j)) (p_y (qs ! j)) < 10"
  show ?case
  proof (cases "distanceToLine x y (p_x p1) (p_y p1) (p_x p2) (p_y p2) < 10")
    case True
    then have "1 \<le> (1::nat) \<and> 1 < length (p1 # p2 # ps) \<and> ?near (p1 # p2 # ps) 1"
      by simp
    then have "\<exists>j. 1 \<le> j \<and> j < length (p1 # p2 # ps) \<and> ?near (p1 # p2 # ps) j"
      by blast
    then show ?thesis
      using True by (simp add: hitTolerance_def)
  next
    case False
    have "(\<exists>j. 1 \<le> j \<and> j < length (p1 # p2 # ps) \<and> ?near (p1 # p2 # ps) j) \<longleftrightarrow>
          (\<exists>j. 1 \<le> j \<and> j < length (p2 # ps) \<and> ?near (p2 # ps) j)"
      (is "?L \<longleftrightarrow> ?R")
    proof
      assume ?L
      then obtain j where j: "1 \<le> j" "j < length (p1 # p2 # ps)" "?near (p1 # p2 # ps) j"
        by blast
      have "j \<noteq> 1"
        using j(3) False by auto
      then obtain k where k: "j = Suc k" "1 \<le> k"
        using j(1) by (cases j) auto
      then have "k < length (p2 # ps)"
        using j(2) by simp
      moreover have "?near (p2 # ps) k"
        using j(3) k by (cases k) auto
      ultimately show ?R
        using k(2) by blast
    next
      assume ?R
      then obtain k where k: "1 \<le> k" "k < length (p2 # ps)" "?near (p2 # ps) k"
        by blast
      have "1 \<le> Suc k \<and> Suc k < length (p1 # p2 # ps) \<and> ?near (p1 # p2 # ps) (Suc k)"
        using k by (cases k) auto
      then show ?L
        by blast
    qed
    then show ?thesis
      using False 1 by (simp add: hitTolerance_def)
  qed
qed simp_all

lemma strokeHit_iff:
  "strokeHit s x y st \<longleftrightarrow>
     (\<exists>j. 1 \<le> j \<and> j < length (s_points st) \<and>
        distanceToLine x y
          (p_x (heap s (s_points st ! (j - 1)))) (p_y (heap s (s_points st ! (j - 1))))
          (p_x (heap s (s_points st ! j))) (p_y (heap s (s_points st ! j))) < 10)"
proof -
  have "\<And>j. 1 \<le> j \<Longrightarrow> j < length (s_points st) \<Longrightarrow>
      map (heap s) (s_points st) ! (j - 1) = heap s (s_points st ! (j - 1)) \<and>
      map (heap s) (s_points st) ! j = heap s (s_points st ! j)"
    by simp
  then show ?thesis
    unfolding strokeHit_def anySegmentNear_iff by auto
qed

lemma lastHit_Some:
  "lastHit s x y ty = Some i \<longleftrightarrow> hits s x y ty i \<and> (\<forall>j. i < j \<longrightarrow> \<not> hits s x y ty j)"
  by (cases ty)
    (auto simp: lastHit_def hits_def scanDown_Some textHit_def ellipseHit_def rectangleHit_def
      arrowHit_def blurHit_def strokeHit_iff hitTolerance_def)


lemma all_annType:
  "(\<forall>ty. P ty) \<longleftrightarrow> P TText \<and> P TEllipse \<and> P TRectangle \<and> P TArrow \<and> P TStroke \<and> P TBlur"
  by (metis annType.exhaust)

lemma find_by_lastHit:
  "findAnnotationAtPoint x y s = Some (ty, i) \<longleftrightarrow>
     lastHit s x y ty = Some i \<and>
     (\<forall>ty'. specPriority ty' < specPriority ty \<longrightarrow> lastHit s x y ty' = None)"
  by (cases ty)
    (auto simp: findAnnotationAtPoint_def lastHit_def specPriority_def all_annType
      split: option.splits)






section \<open>Resizing to the same bounds\<close>

text \<open>Writing its own value back into every cell leaves the store as it was.\<close>

lemma fold_update_same:
  assumes "\<forall>a \<in> set as. g (h a) = h a"
  shows "fold (\<lambda>a h. h(a := g (h a))) as h = h"
  using assms by (induction as) simp_all

lemma fold_min_bounds:
  "fold (\<lambda>q m. min m (f q)) ps (seed::real) \<le> seed \<and>
   (\<forall>q \<in> set ps. fold (\<lambda>q m. min m (f q)) ps seed \<le> f q)"
proof (induction ps arbitrary: seed)
  case Nil
  then show ?case by simp
next
  case (Cons p ps)
  have a: "fold (\<lambda>q m. min m (f q)) ps (min seed (f p)) \<le> min seed (f p)"
    and b: "\<forall>q \<in> set ps. fold (\<lambda>q m. min m (f q)) ps (min seed (f p)) \<le> f q"
    using Cons [of "min seed (f p)"] by blast+
  show ?case using a b by auto
qed

lemma fold_max_bounds:
  "seed \<le> fold (\<lambda>q m. max m (f q)) ps (seed::real) \<and>
   (\<forall>q \<in> set ps. f q \<le> fold (\<lambda>q m. max m (f q)) ps seed)"
proof (induction ps arbitrary: seed)
  case Nil
  then show ?case by simp
next
  case (Cons p ps)
  have a: "max seed (f p) \<le> fold (\<lambda>q m. max m (f q)) ps (max seed (f p))"
    and b: "\<forall>q \<in> set ps. f q \<le> fold (\<lambda>q m. max m (f q)) ps (max seed (f p))"
    using Cons [of "max seed (f p)"] by blast+
  show ?case using a b by auto
qed

lemma strokeGetBounds_encloses:
  assumes "strokeGetBounds h st = Some B" and "a \<in> set (s_points st)"
  shows "b_x B \<le> p_x (h a) \<and> p_x (h a) \<le> b_x B + b_width B \<and>
         b_y B \<le> p_y (h a) \<and> p_y (h a) \<le> b_y B + b_height B"
proof -
  obtain p ps where pts: "map h (s_points st) = p # ps"
    using assms(1) by (cases "map h (s_points st)") (simp_all add: strokeGetBounds_def)
  have B: "B = \<lparr>b_x = fold (\<lambda>q m. min m (p_x q)) ps (p_x p),
                b_y = fold (\<lambda>q m. min m (p_y q)) ps (p_y p),
                b_width = fold (\<lambda>q m. max m (p_x q)) ps (p_x p) - fold (\<lambda>q m. min m (p_x q)) ps (p_x p),
                b_height = fold (\<lambda>q m. max m (p_y q)) ps (p_y p) - fold (\<lambda>q m. min m (p_y q)) ps (p_y p)\<rparr>"
    using assms(1) pts by (simp add: strokeGetBounds_def Let_def)
  have "h a \<in> set (p # ps)"
    using assms(2) pts by (metis image_eqI set_map)
  then have "h a = p \<or> h a \<in> set ps" by simp
  then show ?thesis
    using fold_min_bounds [where f = p_x and ps = ps and seed = "p_x p"]
      fold_max_bounds [where f = p_x and ps = ps and seed = "p_x p"]
      fold_min_bounds [where f = p_y and ps = ps and seed = "p_y p"]
      fold_max_bounds [where f = p_y and ps = ps and seed = "p_y p"]
    unfolding B by auto
qed

lemma overflowBound_gt_1: "1 < overflowBound"
  by (simp add: overflowBound_def)

lemma inRange_0: "inRange 0"
  using overflowBound_gt_1 by (simp add: inRange_def)

lemma inRange_1: "inRange 1"
  using overflowBound_gt_1 by (simp add: inRange_def)

lemma inRange_between:
  assumes "inRange w" and "0 \<le> d" and "d \<le> w"
  shows "inRange d"
  using assms by (simp add: inRange_def)

lemma jsDivide_same: "jsDivide w (jsOr w 1) = Inr (w / jsOr w 1)"
proof (cases "w = 0")
  case True
  then show ?thesis
    using inRange_0 by (simp add: jsDivide_def jsOr_def overflows_def)
next
  case False
  then show ?thesis
    using inRange_1 by (simp add: jsDivide_def jsOr_def overflows_def)
qed

text \<open>A point inside the bounds is left where it is, and nothing overflows.\<close>

lemma scalePoint_same:
  assumes "b_x B \<le> x" and "x \<le> b_x B + b_width B"
    and "b_y B \<le> y" and "y \<le> b_y B + b_height B"
  shows "scalePoint B B (b_width B / jsOr (b_width B) 1) (b_height B / jsOr (b_height B) 1) x y =
         Inr \<lparr>p_x = x, p_y = y\<rparr>"
proof -
  let ?sx = "b_width B / jsOr (b_width B) 1" and ?sy = "b_height B / jsOr (b_height B) 1"
  have mx: "(x - b_x B) * ?sx = x - b_x B"
    using assms(1,2) by (cases "b_width B = 0") (simp_all add: jsOr_def)
  have my: "(y - b_y B) * ?sy = y - b_y B"
    using assms(3,4) by (cases "b_height B = 0") (simp_all add: jsOr_def)
  have no: "\<not> overflows (x # y # ?sx # ?sy # boundsFields B @ boundsFields B)
      [x - b_x B, (x - b_x B) * ?sx, b_x B + (x - b_x B) * ?sx,
       y - b_y B, (y - b_y B) * ?sy, b_y B + (y - b_y B) * ?sy]"
  proof
    assume "overflows (x # y # ?sx # ?sy # boundsFields B @ boundsFields B)
      [x - b_x B, (x - b_x B) * ?sx, b_x B + (x - b_x B) * ?sx,
       y - b_y B, (y - b_y B) * ?sy, b_y B + (y - b_y B) * ?sy]"
    then have ov: "inRange x \<and> inRange y \<and> inRange (b_width B) \<and> inRange (b_height B) \<and>
        \<not> (inRange (x - b_x B) \<and> inRange x \<and> inRange (y - b_y B) \<and> inRange y)"
      unfolding mx my by (auto simp add: overflows_def boundsFields_def)
    have w: "inRange (b_width B)" and h: "inRange (b_height B)"
      using ov by blast+
    have "inRange (x - b_x B)"
      using inRange_between [OF w, of "x - b_x B"] assms(1,2) by simp
    moreover have "inRange (y - b_y B)"
      using inRange_between [OF h, of "y - b_y B"] assms(3,4) by simp
    ultimately show False
      using ov by blast
  qed
  have x': "b_x B + (x - b_x B) * ?sx = x" and y': "b_y B + (y - b_y B) * ?sy = y"
    unfolding mx my by simp_all
  have "scalePoint B B ?sx ?sy x y =
      Inr \<lparr>p_x = b_x B + (x - b_x B) * ?sx, p_y = b_y B + (y - b_y B) * ?sy\<rparr>"
    unfolding scalePoint_def Let_def by (simp only: no if_False)
  then show ?thesis
    by (simp only: x' y')
qed

lemma scaleEach_same:
  assumes "\<forall>a \<in> set as. b_x B \<le> p_x (h a) \<and> p_x (h a) \<le> b_x B + b_width B \<and>
         b_y B \<le> p_y (h a) \<and> p_y (h a) \<le> b_y B + b_height B"
  shows "scaleEach B B (b_width B / jsOr (b_width B) 1) (b_height B / jsOr (b_height B) 1) as h =
         Inr h"
  using assms
proof (induction as)
  case Nil
  then show ?case by simp
next
  case (Cons a as)
  have "scalePoint B B (b_width B / jsOr (b_width B) 1) (b_height B / jsOr (b_height B) 1)
          (p_x (h a)) (p_y (h a)) = Inr (h a)"
    using scalePoint_same [of B "p_x (h a)" "p_y (h a)"] Cons.prems by simp
  then show ?case
    using Cons by simp
qed

lemma scalePoints_same:
  assumes "strokeGetBounds h st = Some B"
  shows "scalePoints B B (s_points st) h = Inr h"
proof -
  have "scalePoints B B (s_points st) h =
      scaleEach B B (b_width B / jsOr (b_width B) 1) (b_height B / jsOr (b_height B) 1)
        (s_points st) h"
    by (simp only: scalePoints_def jsDivide_same sum.case)
  then show ?thesis
    using scaleEach_same [of "s_points st" B h] strokeGetBounds_encloses [OF assms]
    by simp
qed

lemma scaleArrow_same: "scaleArrow (arrowGetBounds a) (arrowGetBounds a) a = Inr a"
proof -
  let ?B = "arrowGetBounds a"
  have s: "scalePoint ?B ?B (b_width ?B / jsOr (b_width ?B) 1) (b_height ?B / jsOr (b_height ?B) 1)
      (a_startX a) (a_startY a) = Inr \<lparr>p_x = a_startX a, p_y = a_startY a\<rparr>"
    by (rule scalePoint_same) (simp_all add: arrowGetBounds_def)
  have e: "scalePoint ?B ?B (b_width ?B / jsOr (b_width ?B) 1) (b_height ?B / jsOr (b_height ?B) 1)
      (a_endX a) (a_endY a) = Inr \<lparr>p_x = a_endX a, p_y = a_endY a\<rparr>"
    by (rule scalePoint_same) (simp_all add: arrowGetBounds_def)
  have "scaleArrow ?B ?B a =
      Inr (a\<lparr>a_startX := p_x \<lparr>p_x = a_startX a, p_y = a_startY a\<rparr>,
             a_startY := p_y \<lparr>p_x = a_startX a, p_y = a_startY a\<rparr>,
             a_endX := p_x \<lparr>p_x = a_endX a, p_y = a_endY a\<rparr>,
             a_endY := p_y \<lparr>p_x = a_endX a, p_y = a_endY a\<rparr>\<rparr>)"
    by (simp only: scaleArrow_def jsDivide_same sum.case s e)
  then show ?thesis
    by simp
qed

lemma applyBounds_same:
  assumes "annotationBounds s ty i = Some B"
  shows "\<exists>t. applyBoundsToAnnotation ty i B B s = Inr t \<and> annotationBounds t ty i = Some B"
proof (cases ty)
  case TStroke
  then have i: "i < length (strokes s)"
    and B: "strokeGetBounds (heap s) (strokes s ! i) = Some B"
    using assms by (simp_all add: annotationBounds_def split: if_splits)
  show ?thesis
    using TStroke i B scalePoints_same [OF B] assms
    by (simp add: applyBoundsToAnnotation_def annotationBounds_def)
next
  case TArrow
  then have i: "i < length (arrows s)" and B: "B = arrowGetBounds (arrows s ! i)"
    using assms by (simp_all add: annotationBounds_def split: if_splits)
  show ?thesis
    using TArrow i scaleArrow_same [of "arrows s ! i"]
    unfolding B by (simp add: applyBoundsToAnnotation_def annotationBounds_def)
next
  case TRectangle
  then have i: "i < length (rectangles s)" and B: "B = rectangleGetBounds (rectangles s ! i)"
    using assms by (simp_all add: annotationBounds_def split: if_splits)
  show ?thesis
    using TRectangle i
    unfolding B by (simp add: applyBoundsToAnnotation_def annotationBounds_def rectangleGetBounds_def)
next
  case TEllipse
  then have i: "i < length (ellipses s)" and B: "B = ellipseGetBounds (ellipses s ! i)"
    using assms by (simp_all add: annotationBounds_def split: if_splits)
  show ?thesis
    using TEllipse i
    unfolding B by (simp add: applyBoundsToAnnotation_def annotationBounds_def ellipseGetBounds_def)
next
  case TText
  then have i: "i < length (texts s)" and B: "B = textGetBounds (measureText s) (texts s ! i)"
    using assms by (simp_all add: annotationBounds_def split: if_splits)
  show ?thesis
    using TText i
    unfolding B by (simp add: applyBoundsToAnnotation_def annotationBounds_def textGetBounds_def Let_def)
next
  case TBlur
  then have i: "i < length (blurs s)" and B: "B = blurGetBounds (blurs s ! i)"
    using assms by (simp_all add: annotationBounds_def split: if_splits)
  show ?thesis
    using TBlur i
    unfolding B by (simp add: applyBoundsToAnnotation_def annotationBounds_def blurGetBounds_def)
qed

lemma resizeBounds_zero:
  assumes "10 \<le> b_width B" and "10 \<le> b_height B"
  shows "resizeBounds mode 0 0 B = B"
  using assms by (simp add: resizeBounds_def Let_def)

lemma resizeBounds_zero_small:
  "resizeBounds mode 0 0 B =
     B\<lparr>b_width := (if b_width B < 10 then 10 else b_width B),
       b_height := (if b_height B < 10 then 10 else b_height B)\<rparr>"
  by (simp add: resizeBounds_def Let_def)

text \<open>
  C8, as claimed: for every bounds, also below 10 in width or height, the resize operation
  with the same bounds leaves the bounds as they are. The rectangle of 8 by 8 has the
  bounds (0,0,8,8); with its south-east handle grabbed at (9,9), a mouse move to the same
  point (9,9), a drag of zero length, makes it 10 by 10.
\<close>

theorem zero_drag_resize_grows_small_rectangle:
  "outcome rectangles (run smallRectangleSession loaded) =
     Some [\<lparr>r_x = 0, r_y = 0, r_width = 8, r_height = 8,
            r_color = ''#ef4444'', r_lineWidth = 4, r_filled = False\<rparr>] \<and>
   outcome dragMode (run smallRectangleSession loaded) = Some (Some ''resize-se'') \<and>
   outcome originalBounds (run smallRectangleSession loaded) =
     Some (Some \<lparr>b_x = 0, b_y = 0, b_width = 8, b_height = 8\<rparr>) \<and>
   outcome rectangles (run (smallRectangleSession @ [MouseMove 9 9]) loaded) =
     Some [\<lparr>r_x = 0, r_y = 0, r_width = 10, r_height = 10,
            r_color = ''#ef4444'', r_lineWidth = 4, r_filled = False\<rparr>]"
  by (simp add: smallRectangleSession_def eval_defs)

text \<open>
  C8, amended. Let \<open>B\<close> be the bounds of an annotation of any variant. Applying \<open>B\<close> as
  the new bounds with \<open>B\<close> as the original bounds (\<open>applyBoundsToAnnotation\<close>) leaves the
  bounds equal to \<open>B\<close>, whatever the size of \<open>B\<close>. The resize of a drag
  (\<open>resizeAnnotation\<close>), which first raises a width or a height below 10 to 10, leaves the
  bounds equal to \<open>B\<close> on a drag of zero length when the width and the height of \<open>B\<close>
  are at least 10.
\<close>

theorem resize_to_same_bounds:
  assumes "annotationBounds s ty i = Some B"
  shows "(\<exists>t. applyBoundsToAnnotation ty i B B s = Inr t \<and> annotationBounds t ty i = Some B) \<and>
         (10 \<le> b_width B \<and> 10 \<le> b_height B \<longrightarrow>
            (\<exists>t. resizeAnnotation ty i mode 0 0 B s = Inr t \<and> annotationBounds t ty i = Some B))"
  using applyBounds_same [OF assms] resizeBounds_zero [of B mode]
  by (simp add: resizeAnnotation_def)

theorem resize_to_same_bounds_witness:
  "annotationBounds hitScene TRectangle 0 =
     Some \<lparr>b_x = 200, b_y = 200, b_width = 50, b_height = 50\<rparr> \<and>
   (\<exists>t. applyBoundsToAnnotation TRectangle 0
          \<lparr>b_x = 200, b_y = 200, b_width = 50, b_height = 50\<rparr>
          \<lparr>b_x = 200, b_y = 200, b_width = 50, b_height = 50\<rparr> hitScene = Inr t \<and>
        annotationBounds t TRectangle 0 =
          Some \<lparr>b_x = 200, b_y = 200, b_width = 50, b_height = 50\<rparr>) \<and>
   (\<exists>t. resizeAnnotation TRectangle 0 ''resize-se'' 0 0
          \<lparr>b_x = 200, b_y = 200, b_width = 50, b_height = 50\<rparr> hitScene = Inr t \<and>
        annotationBounds t TRectangle 0 =
          Some \<lparr>b_x = 200, b_y = 200, b_width = 50, b_height = 50\<rparr>) \<and>
   annotationBounds hitScene TArrow 0 =
     Some \<lparr>b_x = 0, b_y = 0, b_width = 100, b_height = 0\<rparr> \<and>
   (\<exists>t. applyBoundsToAnnotation TArrow 0
          \<lparr>b_x = 0, b_y = 0, b_width = 100, b_height = 0\<rparr>
          \<lparr>b_x = 0, b_y = 0, b_width = 100, b_height = 0\<rparr> hitScene = Inr t \<and>
        annotationBounds t TArrow 0 = Some \<lparr>b_x = 0, b_y = 0, b_width = 100, b_height = 0\<rparr>)"
proof -
  let ?R = "\<lparr>b_x = 200, b_y = 200, b_width = 50, b_height = 50\<rparr> :: bounds"
  let ?A = "\<lparr>b_x = 0, b_y = 0, b_width = 100, b_height = 0\<rparr> :: bounds"
  have r: "annotationBounds hitScene TRectangle 0 = Some ?R"
    by (simp add: hitScene_def annotationBounds_def rectangleGetBounds_def newRectangle_def)
  have a: "annotationBounds hitScene TArrow 0 = Some ?A"
    by (simp add: hitScene_def annotationBounds_def arrowGetBounds_def newArrow_def)
  have r1: "\<exists>t. applyBoundsToAnnotation TRectangle 0 ?R ?R hitScene = Inr t \<and>
      annotationBounds t TRectangle 0 = Some ?R"
    using resize_to_same_bounds [OF r] by blast
  have r2: "\<exists>t. resizeAnnotation TRectangle 0 ''resize-se'' 0 0 ?R hitScene = Inr t \<and>
      annotationBounds t TRectangle 0 = Some ?R"
    using resize_to_same_bounds [OF r, of "''resize-se''"] by simp
  have a1: "\<exists>t. applyBoundsToAnnotation TArrow 0 ?A ?A hitScene = Inr t \<and>
      annotationBounds t TArrow 0 = Some ?A"
    using resize_to_same_bounds [OF a] by blast
  show ?thesis
    using r a r1 r2 a1 by blast
qed

section \<open>Proportional resize in a drag\<close>

text \<open>The divisor of a scale factor is never zero.\<close>

lemma jsOr_nonzero: "jsOr v 1 \<noteq> 0"
  by (simp add: jsOr_def)

lemma jsDivide_guarded:
  assumes "inRange (a / jsOr b 1)"
  shows "jsDivide a (jsOr b 1) = Inr (a / jsOr b 1)"
  using assms by (simp add: jsDivide_def jsOr_def overflows_def)

lemma inRange_small: "\<bar>v\<bar> \<le> 1000 \<Longrightarrow> inRange v"
  by (simp add: inRange_def overflowBound_def)

lemma inRange_mono:
  assumes "inRange w" and "0 \<le> v" and "v \<le> w"
  shows "inRange v"
  using assms by (simp add: inRange_def)

lemma run_from: "run evs s = Inr t \<Longrightarrow> run (evs @ evs') s = run evs' t"
  by (induction evs arbitrary: s) (auto split: sum.splits)

text \<open>
  One mouse move to (200,0) during the drag. The new bounds are (0,0,200,10), the scale
  factors are 200 / 100 and 10 / 1, and the end of the arrow, already scaled by the
  moves before, is scaled again.
\<close>

lemma grabbed_step:
  assumes "arrowGrabbed s" and "arrows s = [sessionArrow v]" and "inRange v"
  shows "step (MouseMove 200 0) s =
         (if inRange (v * 2) then Inr (s\<lparr>arrows := [sessionArrow (v * 2)]\<rparr>) else Inl NonFinite)"
proof -
  have nb: "resizeBounds ''resize-ne'' 100 0 \<lparr>b_x = 0, b_y = 0, b_width = 100, b_height = 0\<rparr> =
      \<lparr>b_x = 0, b_y = 0, b_width = 200, b_height = 10\<rparr>"
    by (simp add: resizeBounds_def modeIncludes_def Let_def)
  have small: "inRange 0" "inRange 2" "inRange 10" "inRange 100" "inRange 200"
    by (simp_all add: inRange_small)
  have sc: "scaleArrow \<lparr>b_x = 0, b_y = 0, b_width = 200, b_height = 10\<rparr>
      \<lparr>b_x = 0, b_y = 0, b_width = 100, b_height = 0\<rparr> (sessionArrow v) =
      (if inRange (v * 2) then Inr (sessionArrow (v * 2)) else Inl NonFinite)"
    using assms(3) small
    by (simp add: scaleArrow_def jsDivide_def jsOr_def scalePoint_def overflows_def
        boundsFields_def sessionArrow_def newArrow_def Let_def)
  have "step (MouseMove 200 0) s =
      (case scaleArrow \<lparr>b_x = 0, b_y = 0, b_width = 200, b_height = 10\<rparr>
              \<lparr>b_x = 0, b_y = 0, b_width = 100, b_height = 0\<rparr> (arrows s ! 0) of
         Inl e \<Rightarrow> Inl e
       | Inr a \<Rightarrow> Inr (s\<lparr>arrows := (arrows s)[0 := a]\<rparr>))"
    using assms(1)
    by (simp add: arrowGrabbed_def step_def handleMouseMove_def truthyMode_def
        handleSelectMouseMove_def resizeAnnotation_def nb applyBoundsToAnnotation_def)
  then show ?thesis
    using assms(2) sc by simp
qed

lemma grabbed_update: "arrowGrabbed (s\<lparr>arrows := as\<rparr>) = arrowGrabbed s"
  by (simp add: arrowGrabbed_def)

text \<open>As long as the end of the arrow is in the range of the doubles, every move doubles it.\<close>

lemma grabbed_run:
  assumes "arrowGrabbed s" and "arrows s = [sessionArrow v]" and "0 \<le> v"
    and "inRange (v * 2 ^ k)"
  shows "run (replicate k (MouseMove 200 0)) s = Inr (s\<lparr>arrows := [sessionArrow (v * 2 ^ k)]\<rparr>)"
  using assms
proof (induction k arbitrary: s v)
  case 0
  have "s\<lparr>arrows := arrows s\<rparr> = s"
    by simp
  then show ?case
    using 0 by simp
next
  case (Suc k)
  have le: "v \<le> v * 2" and le': "v * 2 \<le> v * 2 ^ Suc k"
    using Suc.prems(3) by (simp_all add: mult_left_mono)
  have r2: "inRange (v * 2)"
    using inRange_mono [OF Suc.prems(4), of "v * 2"] Suc.prems(3) le' by simp
  have r1: "inRange v"
    using inRange_mono [OF r2 Suc.prems(3) le] .
  let ?s' = "s\<lparr>arrows := [sessionArrow (v * 2)]\<rparr>"
  have st: "step (MouseMove 200 0) s = Inr ?s'"
    using grabbed_step [OF Suc.prems(1,2) r1] r2 by simp
  have "run (replicate k (MouseMove 200 0)) ?s' =
      Inr (?s'\<lparr>arrows := [sessionArrow (v * 2 * 2 ^ k)]\<rparr>)"
  proof (rule Suc.IH)
    show "arrowGrabbed ?s'"
      using Suc.prems(1) by (simp add: grabbed_update)
    show "arrows ?s' = [sessionArrow (v * 2)]"
      by simp
    show "0 \<le> v * 2"
      using Suc.prems(3) by simp
    show "inRange (v * 2 * 2 ^ k)"
      using Suc.prems(4) by (simp add: mult.assoc)
  qed
  then show ?case
    using st by (simp add: mult.assoc)
qed

text \<open>The move that takes the end of the arrow beyond the range of the doubles.\<close>

lemma grabbed_overflow:
  assumes "arrowGrabbed s" and "arrows s = [sessionArrow v]" and "0 \<le> v"
    and "inRange (v * 2 ^ k)" and "\<not> inRange (v * 2 ^ Suc k)"
  shows "run (replicate k (MouseMove 200 0) @ [MouseMove 200 0]) s = Inl NonFinite"
proof -
  let ?t = "s\<lparr>arrows := [sessionArrow (v * 2 ^ k)]\<rparr>"
  have "run (replicate k (MouseMove 200 0) @ [MouseMove 200 0]) s = run [MouseMove 200 0] ?t"
    using run_from [OF grabbed_run [OF assms(1-4)]] .
  moreover have "step (MouseMove 200 0) ?t = Inl NonFinite"
  proof -
    have g: "arrowGrabbed ?t" and a: "arrows ?t = [sessionArrow (v * 2 ^ k)]"
      using assms(1) by (simp_all add: grabbed_update)
    have n: "\<not> inRange (v * 2 ^ k * 2)"
      using assms(5) by (simp add: ac_simps)
    show ?thesis
      using grabbed_step [OF g a assms(4)] n by simp
  qed
  ultimately show ?thesis
    by simp
qed

lemma end_in_range: "inRange (100 * 2 ^ 1017)"
  by (simp add: inRange_def overflowBound_def)

lemma end_beyond_range: "\<not> inRange (100 * 2 ^ 1018)"
  by (simp add: inRange_def overflowBound_def)

text \<open>
  C10. The proportional resize of arrows and strokes never yields a coordinate that is
  not finite. The divisor of a scale factor is never zero, but the scaling is applied on
  every mouse move of a resize drag to the coordinates as the move before left them,
  with the bounds saved when the handle was grabbed as the original bounds. The
  horizontal arrow from (0,0) to (100,0), of height zero, is grabbed at its end and the
  pointer is held at (200,0). The new bounds are (0,0,200,10) on every move, and the end
  of the arrow is at 200 after one move, at 400 after two and at 800 after three. After
  1017 moves it is at \<open>100 * 2 ^ 1017\<close>, a finite double as all the values before it, and
  the next move overflows: the end of the arrow is not a finite number.
\<close>

theorem resize_drag_overflows:
  "outcome arrowGrabbed (run arrowResizeSession loaded) = Some True \<and>
   outcome arrows (run arrowResizeSession loaded) = Some [sessionArrow 100] \<and>
   arrowGetBounds (sessionArrow 100) = \<lparr>b_x = 0, b_y = 0, b_width = 100, b_height = 0\<rparr> \<and>
   outcome arrows (run (arrowResizeSession @ replicate 1 (MouseMove 200 0)) loaded) =
     Some [sessionArrow 200] \<and>
   outcome arrows (run (arrowResizeSession @ replicate 2 (MouseMove 200 0)) loaded) =
     Some [sessionArrow 400] \<and>
   outcome arrows (run (arrowResizeSession @ replicate 3 (MouseMove 200 0)) loaded) =
     Some [sessionArrow 800] \<and>
   outcome arrows (run (arrowResizeSession @ replicate 1017 (MouseMove 200 0)) loaded) =
     Some [sessionArrow (100 * 2 ^ 1017)] \<and>
   run (arrowResizeSession @ replicate 1018 (MouseMove 200 0)) loaded = Inl NonFinite"
proof -
  have g: "outcome arrowGrabbed (run arrowResizeSession loaded) = Some True"
    and a: "outcome arrows (run arrowResizeSession loaded) = Some [sessionArrow 100]"
    by (simp_all add: arrowResizeSession_def arrowGrabbed_def sessionArrow_def eval_defs
        sqrt_greater_5 hitTolerance_def)
  have b: "arrowGetBounds (sessionArrow 100) = \<lparr>b_x = 0, b_y = 0, b_width = 100, b_height = 0\<rparr>"
    by (simp add: arrowGetBounds_def sessionArrow_def newArrow_def)
  obtain s where s: "run arrowResizeSession loaded = Inr s"
    and gs: "arrowGrabbed s" and as: "arrows s = [sessionArrow 100]"
    using g a by (auto simp add: outcome_def split: sum.splits)
  have moves: "outcome arrows (run (arrowResizeSession @ replicate k (MouseMove 200 0)) loaded) =
      Some [sessionArrow (100 * 2 ^ k)]" if "inRange (100 * 2 ^ k)" for k
    using run_from [OF s, of "replicate k (MouseMove 200 0)"]
      grabbed_run [OF gs as _ that]
    by (simp add: outcome_def)
  have m1: "outcome arrows (run (arrowResizeSession @ replicate 1 (MouseMove 200 0)) loaded) =
      Some [sessionArrow 200]"
    using moves [of 1] by (simp add: inRange_small)
  have m2: "outcome arrows (run (arrowResizeSession @ replicate 2 (MouseMove 200 0)) loaded) =
      Some [sessionArrow 400]"
    using moves [of 2] by (simp add: inRange_small)
  have m3: "outcome arrows (run (arrowResizeSession @ replicate 3 (MouseMove 200 0)) loaded) =
      Some [sessionArrow 800]"
    using moves [of 3] by (simp add: inRange_small)
  have m1017: "outcome arrows (run (arrowResizeSession @ replicate 1017 (MouseMove 200 0)) loaded) =
      Some [sessionArrow (100 * 2 ^ 1017)]"
    using moves [OF end_in_range] .
  have n: "(1018::nat) = Suc 1017"
    by simp
  have "replicate 1018 (MouseMove 200 0) = replicate 1017 (MouseMove 200 0) @ [MouseMove 200 0]"
    unfolding n by (simp only: replicate.simps replicate_append_same)
  then have over: "run (arrowResizeSession @ replicate 1018 (MouseMove 200 0)) loaded = Inl NonFinite"
    using run_from [OF s, of "replicate 1018 (MouseMove 200 0)"]
      grabbed_overflow [OF gs as _ end_in_range] end_beyond_range
    by simp
  show ?thesis
    using g a b m1 m2 m3 m1017 over by blast
qed

section \<open>Strokes of a single point\<close>

subsection \<open>The selection is never a dot\<close>

lemma hit_stroke_long:
  assumes "findAnnotationAtPoint x y s = Some (TStroke, i)"
  shows "i < length (strokes s) \<and> 2 \<le> length (s_points (strokes s ! i))"
proof -
  have "hits s x y TStroke i"
    using assms find_by_lastHit [of x y s TStroke i] lastHit_Some [of s x y TStroke i] by blast
  then show ?thesis
    by (auto simp: hits_def)
qed

lemma dns_same:
  assumes "selection t = selection s" and "strokes t = strokes s"
  shows "dotNeverSelected t = dotNeverSelected s"
  by (simp only: dotNeverSelected_def assms)

lemma dns_append:
  assumes "selection t = selection s" and "strokes t = strokes s @ xs" and "dotNeverSelected s"
  shows "dotNeverSelected t"
  using assms
  by (auto simp add: dotNeverSelected_def nth_append split: option.splits annType.splits)

lemma dns_none:
  assumes "selection t = None"
  shows "dotNeverSelected t"
  using assms by (simp add: dotNeverSelected_def)

lemma dns_hit:
  assumes "selection t = findAnnotationAtPoint x y s" and "strokes t = strokes s"
  shows "dotNeverSelected t"
  using assms hit_stroke_long [of x y s]
  by (auto simp add: dotNeverSelected_def split: option.splits annType.splits)

lemma saveToHistory_sel [simp]:
  "selection (saveToHistory s) = selection s" "strokes (saveToHistory s) = strokes s"
  by (simp_all add: saveToHistory_def Let_def)

lemma dns_confirmTextInput: "dotNeverSelected (confirmTextInput s) = dotNeverSelected s"
  by (rule dns_same) (simp_all add: confirmTextInput_def Let_def split: option.splits)

lemma dns_hitAnnotation: "dotNeverSelected (hitAnnotation x y s)"
proof (cases "findAnnotationAtPoint x y s")
  case None
  then show ?thesis
    by (simp add: hitAnnotation_def clearSelection_def dns_none)
next
  case (Some hit)
  then show ?thesis
    by (cases hit) (auto intro!: dns_hit [of _ x y s] simp add: hitAnnotation_def)
qed

lemma dns_fields:
  assumes "dotNeverSelected s" and "selection t = selection s" and "strokes t = strokes s"
  shows "dotNeverSelected t"
  using assms(1) by (simp only: dotNeverSelected_def assms(2,3))

lemma dns_handleSelectMouseDown:
  assumes "dotNeverSelected s"
  shows "dotNeverSelected (handleSelectMouseDown x y s)"
proof -
  have "handleSelectMouseDown x y s = hitAnnotation x y s \<or>
      selection (handleSelectMouseDown x y s) = selection s \<and>
      strokes (handleSelectMouseDown x y s) = strokes s"
    by (simp add: handleSelectMouseDown_def split: option.splits)
  then show ?thesis
    using dns_hitAnnotation [of x y s] dns_fields [OF assms, of "handleSelectMouseDown x y s"]
    by auto
qed

lemma dns_handleMouseDown:
  assumes "dotNeverSelected s"
  shows "dotNeverSelected (handleMouseDown x y s)"
proof -
  have other: "selection (handleMouseDown x y s) = selection s \<and>
      strokes (handleMouseDown x y s) = strokes s"
    if "\<not> isEditingText s" and "currentTool s \<noteq> ''select''"
    using that by (simp add: handleMouseDown_def showTextInput_def addPoint_def Let_def)
  show ?thesis
  proof (cases "isEditingText s")
    case True
    then show ?thesis
      using assms by (simp add: handleMouseDown_def dns_confirmTextInput)
  next
    case False
    show ?thesis
    proof (cases "currentTool s = ''select''")
      case True
      then show ?thesis
        using False assms by (simp add: handleMouseDown_def dns_handleSelectMouseDown)
    next
      case notsel: False
      show ?thesis
        using other [OF False notsel] dns_fields [OF assms] by blast
    qed
  qed
qed

lemma moveAnnotation_sel:
  "selection (moveAnnotation ty i dx dy s) = selection s"
  "strokes (moveAnnotation ty i dx dy s) = strokes s"
  by (cases ty; simp add: moveAnnotation_def)+

lemma applyBounds_sel:
  assumes "applyBoundsToAnnotation ty i nb ob s = Inr t"
  shows "selection t = selection s \<and> strokes t = strokes s"
  using assms
  by (cases ty) (auto simp add: applyBoundsToAnnotation_def split: sum.splits if_splits)

lemma resizeAnnotation_sel:
  assumes "resizeAnnotation ty i mode dx dy ob s = Inr t"
  shows "selection t = selection s \<and> strokes t = strokes s"
  using assms applyBounds_sel unfolding resizeAnnotation_def by blast

lemma handleSelectMouseMove_sel:
  assumes "handleSelectMouseMove x y s = Inr t"
  shows "selection t = selection s \<and> strokes t = strokes s"
proof (cases "selection s")
  case None
  then show ?thesis
    using assms by (simp add: handleSelectMouseMove_def)
next
  case (Some sel)
  obtain ty i where sel: "sel = (ty, i)"
    by (cases sel)
  show ?thesis
  proof (cases "dragMode s = Some ''move''")
    case True
    then show ?thesis
      using assms Some sel by (auto simp add: handleSelectMouseMove_def Let_def moveAnnotation_sel)
  next
    case False
    show ?thesis
    proof (cases "dragMode s")
      case None
      then show ?thesis
        using assms Some sel by (simp add: handleSelectMouseMove_def Let_def)
    next
      case mode: (Some mode)
      show ?thesis
      proof (cases "originalBounds s")
        case None
        then show ?thesis
          using assms Some sel mode False by (simp add: handleSelectMouseMove_def Let_def)
      next
        case ob: (Some ob)
        show ?thesis
        proof (cases "mode = []")
          case True
          then show ?thesis
            using assms Some sel mode ob by (simp add: handleSelectMouseMove_def Let_def)
        next
          case nonempty: False
          have "resizeAnnotation ty i mode (x - dragStartX s) (y - dragStartY s) ob s = Inr t"
            using assms Some sel mode ob False nonempty
            by (simp add: handleSelectMouseMove_def Let_def)
          then show ?thesis
            by (rule resizeAnnotation_sel)
        qed
      qed
    qed
  qed
qed

lemma dns_handleMouseMove:
  assumes "dotNeverSelected s" and "handleMouseMove x y s = Inr t"
  shows "dotNeverSelected t"
proof -
  have "selection t = selection s \<and> strokes t = strokes s"
  proof (cases "currentTool s = ''select'' \<and> truthyMode (dragMode s) \<and> selection s \<noteq> None")
    case True
    then have "handleSelectMouseMove x y s = Inr t"
      using assms(2) by (simp add: handleMouseMove_def)
    then show ?thesis
      by (rule handleSelectMouseMove_sel)
  next
    case False
    show ?thesis
    proof (cases "isDrawing s")
      case notdrawing: False
      then show ?thesis
        using assms(2) False by (auto simp add: handleMouseMove_def)
    next
      case True
      show ?thesis
      proof (cases "currentTool s = ''pen''")
        case pen: True
        then show ?thesis
          using assms(2) False True
          by (cases "currentStroke s")
            (auto simp add: handleMouseMove_def scheduleShapeRedraw_def addPoint_def Let_def)
      next
        case nopen: False
        then show ?thesis
          using assms(2) False True
          by (auto simp add: handleMouseMove_def scheduleShapeRedraw_def Let_def)
      qed
    qed
  qed
  then show ?thesis
    using dns_fields [OF assms(1)] by blast
qed

lemma handleMouseUp_sel: "selection (handleMouseUp s) = selection s"
  by (simp add: handleMouseUp_def Let_def split: option.splits)

lemma handleMouseUp_strokes:
  "strokes (handleMouseUp s) = strokes s \<or>
   (\<exists>st. currentStroke s = Some st \<and> strokes (handleMouseUp s) = strokes s @ [st])"
  by (simp add: handleMouseUp_def Let_def split: option.splits)

lemma dns_handleMouseUp:
  assumes "dotNeverSelected s"
  shows "dotNeverSelected (handleMouseUp s)"
proof -
  have "\<exists>xs. strokes (handleMouseUp s) = strokes s @ xs"
    using handleMouseUp_strokes [of s] by (metis append_Nil2)
  then show ?thesis
    using assms dns_append handleMouseUp_sel by blast
qed

lemma dns_animationFrame:
  assumes "dotNeverSelected s"
  shows "dotNeverSelected (animationFrame s)"
proof -
  have "selection (animationFrame s) = selection s \<and> strokes (animationFrame s) = strokes s"
    by (simp add: animationFrame_def Let_def split: option.splits prod.splits)
  then show ?thesis
    using dns_fields [OF assms] by blast
qed

lemma dns_restore:
  assumes "restoreFromHistory s = Inr t"
  shows "dotNeverSelected t"
proof -
  have "selection t = None"
    using assms
    by (cases "0 \<le> historyIndex s \<and> historyIndex s < int (length (history s))")
      (auto simp add: restoreFromHistory_def clearSelection_def Let_def)
  then show ?thesis
    by (rule dns_none)
qed

lemma dns_undo:
  assumes "dotNeverSelected s" and "undo s = Inr t"
  shows "dotNeverSelected t"
proof (cases "historyIndex s > 0")
  case True
  then have "restoreFromHistory (s\<lparr>historyIndex := historyIndex s - 1\<rparr>) = Inr t"
    using assms(2) by (simp add: undo_def)
  then show ?thesis
    by (rule dns_restore)
next
  case False
  then have "t = s"
    using assms(2) by (simp add: undo_def)
  then show ?thesis
    using assms(1) by simp
qed

lemma dns_redo:
  assumes "dotNeverSelected s" and "redo s = Inr t"
  shows "dotNeverSelected t"
proof (cases "historyIndex s < int (length (history s)) - 1")
  case True
  then have "restoreFromHistory (s\<lparr>historyIndex := historyIndex s + 1\<rparr>) = Inr t"
    using assms(2) by (simp add: redo_def)
  then show ?thesis
    by (rule dns_restore)
next
  case False
  then have "t = s"
    using assms(2) by (simp add: redo_def)
  then show ?thesis
    using assms(1) by simp
qed

lemma dns_toolbarClick:
  assumes "dotNeverSelected s" and "toolbarClick tool s = Inr t"
  shows "dotNeverSelected t"
proof (cases "tool = ''undo''")
  case True
  then have "undo s = Inr t"
    using assms(2) by (simp add: toolbarClick_def)
  then show ?thesis
    using assms(1) dns_undo by blast
next
  case False
  show ?thesis
  proof (cases "tool = ''redo''")
    case True
    then have "redo s = Inr t"
      using assms(2) by (simp add: toolbarClick_def)
    then show ?thesis
      using assms(1) dns_redo by blast
  next
    case notredo: False
    have st: "strokes t = strokes s"
      and sel: "selection t = None \<or> selection t = selection s"
      using assms(2) False notredo
      by (auto simp add: toolbarClick_def cancelTextInput_def clearSelection_def Let_def
          split: if_splits)
    show ?thesis
    proof (cases "selection t = None")
      case True
      then show ?thesis
        by (rule dns_none)
    next
      case False
      then have "selection t = selection s"
        using sel by metis
      then show ?thesis
        using dns_fields [OF assms(1) _ st] by blast
    qed
  qed
qed

lemma dns_step:
  assumes "dotNeverSelected s" and "step ev s = Inr t"
  shows "dotNeverSelected t"
proof (cases ev)
  case (MouseDown x y)
  then have "t = handleMouseDown x y s"
    using assms(2) by (simp add: step_def)
  then show ?thesis
    using dns_handleMouseDown [OF assms(1)] by simp
next
  case (MouseMove x y)
  then have "handleMouseMove x y s = Inr t"
    using assms(2) by (simp add: step_def)
  then show ?thesis
    using dns_handleMouseMove [OF assms(1)] by blast
next
  case MouseUp
  then have "t = handleMouseUp s"
    using assms(2) by (simp add: step_def)
  then show ?thesis
    using dns_handleMouseUp [OF assms(1)] by simp
next
  case MouseLeave
  then have "t = handleMouseUp s"
    using assms(2) by (simp add: step_def)
  then show ?thesis
    using dns_handleMouseUp [OF assms(1)] by simp
next
  case AnimationFrame
  then have "t = animationFrame s"
    using assms(2) by (simp add: step_def)
  then show ?thesis
    using dns_animationFrame [OF assms(1)] by simp
next
  case (ToolbarClick tool)
  then have "toolbarClick tool s = Inr t"
    using assms(2) by (simp add: step_def)
  then show ?thesis
    using dns_toolbarClick [OF assms(1)] by blast
next
  case (TypeText v)
  then have "t = s\<lparr>textInputValue := v\<rparr>"
    using assms(2) by (simp add: step_def)
  then show ?thesis
    using dns_fields [OF assms(1), of t] by simp
next
  case TextKeyEnter
  then have "t = confirmTextInput s"
    using assms(2) by (simp add: step_def)
  then show ?thesis
    using assms(1) by (simp add: dns_confirmTextInput)
next
  case TextKeyEscape
  then have "t = cancelTextInput s"
    using assms(2) by (simp add: step_def)
  then show ?thesis
    using dns_fields [OF assms(1), of t] by (simp add: cancelTextInput_def)
next
  case TextBlurTimeout
  then have "t = confirmTextInput s \<or> t = s"
    using assms(2) by (cases "isEditingText s") (simp_all add: step_def)
  then show ?thesis
    using assms(1) by (auto simp add: dns_confirmTextInput)
next
  case KeyUndo
  then have "t = s \<or> undo s = Inr t"
    using assms(2) by (cases "isEditingText s") (simp_all add: step_def)
  then show ?thesis
    using assms(1) dns_undo by blast
next
  case KeyRedo
  then have "t = s \<or> redo s = Inr t"
    using assms(2) by (cases "isEditingText s") (simp_all add: step_def)
  then show ?thesis
    using assms(1) dns_redo by blast
next
  case (KeyTool tool)
  then have "t = s \<or> toolbarClick tool s = Inr t"
    using assms(2) by (cases "isEditingText s") (simp_all add: step_def)
  then show ?thesis
    using assms(1) dns_toolbarClick by blast
qed

lemma dns_run:
  assumes "dotNeverSelected s" and "run evs s = Inr t"
  shows "dotNeverSelected t"
  using assms
proof (induction evs arbitrary: s)
  case Nil
  then show ?case by simp
next
  case (Cons ev evs)
  then obtain s' where s': "step ev s = Inr s'" and r: "run evs s' = Inr t"
    by (auto split: sum.splits)
  show ?case
    using Cons.IH [OF dns_step [OF Cons.prems(1) s'] r] .
qed

subsection \<open>Which strokes hold which point objects\<close>

lemma allocated_evolves:
  assumes "allocated s" and "evolves s t"
  shows "allocated t"
proof -
  have known: "\<forall>a \<in> set (s_points st). a < nextAddr t" if "st \<in> set (knownStrokes t)" for st
  proof -
    have "st \<in> set (knownStrokes s) \<or> s_points st = currentPoints s"
      using assms(2) that by (simp add: evolves_def)
    then have "\<forall>a \<in> set (s_points st). a < nextAddr s"
      using assms(1) by (auto simp add: allocated_def)
    moreover have "nextAddr s \<le> nextAddr t"
      using assms(2) by (simp add: evolves_def)
    ultimately show ?thesis
      by fastforce
  qed
  have cur: "\<forall>a \<in> set (currentPoints t). a < nextAddr t"
  proof -
    have old: "\<forall>a \<in> set (currentPoints s). a < nextAddr s"
      using assms(1) by (simp add: allocated_def)
    have le: "nextAddr s \<le> nextAddr t"
      using assms(2) by (simp add: evolves_def)
    consider "currentPoints t = []" | "currentPoints t = currentPoints s"
      | "nextAddr t = Suc (nextAddr s)" "currentPoints t = [nextAddr s]"
      | "nextAddr t = Suc (nextAddr s)" "currentPoints t = currentPoints s @ [nextAddr s]"
      using assms(2) by (auto simp add: evolves_def)
    then show ?thesis
    proof cases
      case 1
      then show ?thesis by simp
    next
      case 2
      then show ?thesis using old le by fastforce
    next
      case 3
      then show ?thesis by simp
    next
      case 4
      then show ?thesis using old by fastforce
    qed
  qed
  show ?thesis
    using known cur by (simp add: allocated_def)
qed

lemma dotSafe_evolves:
  assumes "dotSafe a s" and "evolves s t"
  shows "dotSafe a t"
proof -
  have lt: "a < nextAddr s" and notcur: "a \<notin> set (currentPoints s)"
    and known: "\<forall>st \<in> set (knownStrokes s). a \<in> set (s_points st) \<longrightarrow> s_points st = [a]"
    using assms(1) by (simp_all add: dotSafe_def)
  have le: "nextAddr s \<le> nextAddr t"
    using assms(2) by (simp add: evolves_def)
  have k: "s_points st = [a]" if "st \<in> set (knownStrokes t)" and "a \<in> set (s_points st)" for st
  proof -
    have "st \<in> set (knownStrokes s) \<or> s_points st = currentPoints s"
      using assms(2) that(1) by (simp add: evolves_def)
    then show ?thesis
      using known notcur that(2) by auto
  qed
  have c: "a \<notin> set (currentPoints t)"
  proof -
    consider "currentPoints t = []" | "currentPoints t = currentPoints s"
      | "currentPoints t = [nextAddr s]"
      | "currentPoints t = currentPoints s @ [nextAddr s]"
      using assms(2) by (auto simp add: evolves_def)
    then show ?thesis
      using notcur lt by cases auto
  qed
  show ?thesis
    using lt le k c by (auto simp add: dotSafe_def)
qed

lemma evolvesI:
  assumes "nextAddr s \<le> nextAddr t"
    and "strokes t = strokes s \<or>
         (\<exists>c. currentStroke s = Some c \<and> strokes t = strokes s @ [c]) \<or>
         (\<exists>e \<in> set (history s). strokes t = h_strokes e)"
    and "\<forall>e \<in> set (history t). e \<in> set (history s) \<or> h_strokes e = strokes t"
    and "currentPoints t = [] \<or> currentPoints t = currentPoints s \<or>
      (nextAddr t = Suc (nextAddr s) \<and>
       (currentPoints t = [nextAddr s] \<or> currentPoints t = currentPoints s @ [nextAddr s]))"
  shows "evolves s t"
proof -
  have live: "st \<in> set (knownStrokes s) \<or> s_points st = currentPoints s"
    if "st \<in> set (strokes t)" for st
    using assms(2) that by (auto simp add: knownStrokes_def currentPoints_def)
  have "st \<in> set (knownStrokes s) \<or> s_points st = currentPoints s"
    if known: "st \<in> set (knownStrokes t)" for st
  proof (cases "st \<in> set (strokes t)")
    case True
    then show ?thesis by (rule live)
  next
    case False
    then obtain e where e: "e \<in> set (history t)" "st \<in> set (h_strokes e)"
      using known by (auto simp add: knownStrokes_def)
    then have "e \<in> set (history s)"
      using assms(3) False by auto
    then show ?thesis
      using e(2) by (auto simp add: knownStrokes_def)
  qed
  then show ?thesis
    using assms(1,4) by (simp add: evolves_def)
qed

lemma map_copyStroke: "map copyStroke xs = xs"
  by (induction xs) (simp_all add: copyStroke_id)

lemma saveToHistory_entries:
  assumes "e \<in> set (history (saveToHistory s))"
  shows "e \<in> set (history s) \<or> h_strokes e = strokes s"
proof -
  let ?hist = "if historyIndex s < int (length (history s)) - 1
               then slice0 (history s) (historyIndex s + 1) else history s"
  have sub: "set ?hist \<subseteq> set (history s)"
    by (auto simp add: slice0_def dest: in_set_takeD)
  have "e \<in> set (?hist @ [snapshot s])"
  proof (cases "length (?hist @ [snapshot s]) > maxEntries")
    case True
    then have "history (saveToHistory s) = tl (?hist @ [snapshot s])"
      by (simp add: saveToHistory_def Let_def)
    then show ?thesis
      using assms by (metis list.sel(2) list.set_sel(2))
  next
    case False
    then have "history (saveToHistory s) = ?hist @ [snapshot s]"
      by (simp add: saveToHistory_def Let_def)
    then show ?thesis
      using assms by simp
  qed
  then have "e \<in> set ?hist \<or> e = snapshot s"
    by auto
  then show ?thesis
    using sub by (auto simp add: snapshot_def map_copyStroke)
qed

lemma saveToHistory_other [simp]:
  "nextAddr (saveToHistory s) = nextAddr s" "currentStroke (saveToHistory s) = currentStroke s"
  "heap (saveToHistory s) = heap s"
  by (simp_all add: saveToHistory_def Let_def)

lemma currentPoints_cong: "currentStroke t = currentStroke s \<Longrightarrow> currentPoints t = currentPoints s"
  by (simp add: currentPoints_def)

text \<open>A state saved after a change that keeps the strokes, or appends the stroke in progress.\<close>

lemma evolves_saved:
  assumes "nextAddr s' = nextAddr s" and "history s' = history s"
    and "strokes s' = strokes s \<or> (\<exists>c. currentStroke s = Some c \<and> strokes s' = strokes s @ [c])"
    and "currentStroke s' = currentStroke s"
    and "nextAddr t = nextAddr (saveToHistory s')" and "strokes t = strokes (saveToHistory s')"
    and "history t = history (saveToHistory s')"
    and "currentStroke t = None \<or> currentStroke t = currentStroke s"
  shows "evolves s t"
proof (rule evolvesI)
  show "nextAddr s \<le> nextAddr t"
    using assms(1,5) by simp
  show "strokes t = strokes s \<or>
         (\<exists>c. currentStroke s = Some c \<and> strokes t = strokes s @ [c]) \<or>
         (\<exists>e \<in> set (history s). strokes t = h_strokes e)"
    using assms(3,6) by auto
  show "\<forall>e \<in> set (history t). e \<in> set (history s) \<or> h_strokes e = strokes t"
    using saveToHistory_entries [of _ s'] assms(2,6,7) by auto
  show "currentPoints t = [] \<or> currentPoints t = currentPoints s \<or>
      (nextAddr t = Suc (nextAddr s) \<and>
       (currentPoints t = [nextAddr s] \<or> currentPoints t = currentPoints s @ [nextAddr s]))"
    using assms(8) by (auto simp add: currentPoints_def)
qed

text \<open>A state that keeps the strokes, the history, the stroke in progress and the next address.\<close>

lemma evolves_kept:
  assumes "nextAddr t = nextAddr s" and "strokes t = strokes s" and "history t = history s"
    and "currentStroke t = currentStroke s"
  shows "evolves s t"
proof (rule evolvesI)
  show "nextAddr s \<le> nextAddr t"
    using assms(1) by simp
  show "strokes t = strokes s \<or>
         (\<exists>c. currentStroke s = Some c \<and> strokes t = strokes s @ [c]) \<or>
         (\<exists>e \<in> set (history s). strokes t = h_strokes e)"
    using assms(2) by simp
  show "\<forall>e \<in> set (history t). e \<in> set (history s) \<or> h_strokes e = strokes t"
    using assms(3) by simp
  show "currentPoints t = [] \<or> currentPoints t = currentPoints s \<or>
      (nextAddr t = Suc (nextAddr s) \<and>
       (currentPoints t = [nextAddr s] \<or> currentPoints t = currentPoints s @ [nextAddr s]))"
    using currentPoints_cong [OF assms(4)] by simp
qed

lemma evolves_saveToHistory: "evolves s (saveToHistory s)"
  by (rule evolves_saved [of s s]) simp_all

lemma evolves_restore:
  assumes "restoreFromHistory s = Inr t"
  shows "evolves s t"
proof (rule evolvesI)
  have ok: "0 \<le> historyIndex s \<and> historyIndex s < int (length (history s))"
  proof (rule ccontr)
    assume "\<not> ?thesis"
    then have "restoreFromHistory s = Inl TypeError"
      by (simp add: restoreFromHistory_def clearSelection_def Let_def)
    then show False
      using assms by simp
  qed
  let ?e = "history s ! nat (historyIndex s)"
  have "restoreFromHistory s =
      Inr ((clearSelection s)\<lparr>strokes := map copyStroke (h_strokes ?e),
             arrows := map copyArrow (h_arrows ?e),
             rectangles := map copyRectangle (h_rectangles ?e),
             ellipses := map copyEllipse (h_ellipses ?e),
             blurs := map copyBlur (h_blurs ?e),
             texts := map copyText (h_texts ?e)\<rparr>)"
    using ok by (simp add: restoreFromHistory_def clearSelection_def Let_def)
  then have teq: "t = (clearSelection s)\<lparr>strokes := map copyStroke (h_strokes ?e),
             arrows := map copyArrow (h_arrows ?e),
             rectangles := map copyRectangle (h_rectangles ?e),
             ellipses := map copyEllipse (h_ellipses ?e),
             blurs := map copyBlur (h_blurs ?e),
             texts := map copyText (h_texts ?e)\<rparr>"
    using assms by simp
  have t: "nextAddr t = nextAddr s" "history t = history s" "currentStroke t = currentStroke s"
    "strokes t = h_strokes ?e"
    unfolding teq by (simp_all add: clearSelection_def map_copyStroke)
  show "nextAddr s \<le> nextAddr t"
    using t by simp
  have "nat (historyIndex s) < length (history s)"
    using ok by linarith
  then have "?e \<in> set (history s)"
    by (rule nth_mem)
  then show "strokes t = strokes s \<or>
         (\<exists>c. currentStroke s = Some c \<and> strokes t = strokes s @ [c]) \<or>
         (\<exists>e \<in> set (history s). strokes t = h_strokes e)"
    using t(4) by blast
  show "\<forall>e \<in> set (history t). e \<in> set (history s) \<or> h_strokes e = strokes t"
    using t(2) by simp
  show "currentPoints t = [] \<or> currentPoints t = currentPoints s \<or>
      (nextAddr t = Suc (nextAddr s) \<and>
       (currentPoints t = [nextAddr s] \<or> currentPoints t = currentPoints s @ [nextAddr s]))"
    using t(3) by (simp add: currentPoints_def)
qed

lemma restore_index:
  assumes "restoreFromHistory (s\<lparr>historyIndex := k\<rparr>) = Inr t"
  shows "evolves s t"
proof -
  have "evolves (s\<lparr>historyIndex := k\<rparr>) t"
    using assms by (rule evolves_restore)
  then show ?thesis
    by (simp add: evolves_def knownStrokes_def currentPoints_def)
qed

lemma evolves_refl: "evolves s s"
  by (rule evolves_kept) simp_all

lemma evolves_undo:
  assumes "undo s = Inr t"
  shows "evolves s t"
proof (cases "historyIndex s > 0")
  case True
  then have "restoreFromHistory (s\<lparr>historyIndex := historyIndex s - 1\<rparr>) = Inr t"
    using assms by (simp add: undo_def)
  then show ?thesis
    by (rule restore_index)
next
  case False
  then have "t = s"
    using assms by (simp add: undo_def)
  then show ?thesis
    by (simp add: evolves_refl)
qed

lemma evolves_redo:
  assumes "redo s = Inr t"
  shows "evolves s t"
proof (cases "historyIndex s < int (length (history s)) - 1")
  case True
  then have "restoreFromHistory (s\<lparr>historyIndex := historyIndex s + 1\<rparr>) = Inr t"
    using assms by (simp add: redo_def)
  then show ?thesis
    by (rule restore_index)
next
  case False
  then have "t = s"
    using assms by (simp add: redo_def)
  then show ?thesis
    by (simp add: evolves_refl)
qed

lemma evolves_maybe_saved:
  assumes "nextAddr s' = nextAddr s" and "history s' = history s"
    and "strokes s' = strokes s \<or> (\<exists>c. currentStroke s = Some c \<and> strokes s' = strokes s @ [c])"
    and "currentStroke s' = currentStroke s"
    and "nextAddr t = nextAddr s"
    and "strokes t = strokes s' \<and> history t = history (saveToHistory s') \<or>
         strokes t = strokes s \<and> history t = history s"
    and "currentStroke t = None \<or> currentStroke t = currentStroke s"
  shows "evolves s t"
proof (cases "strokes t = strokes s \<and> history t = history s")
  case True
  show ?thesis
  proof (rule evolvesI)
    show "nextAddr s \<le> nextAddr t"
      using assms(5) by simp
    show "strokes t = strokes s \<or>
         (\<exists>c. currentStroke s = Some c \<and> strokes t = strokes s @ [c]) \<or>
         (\<exists>e \<in> set (history s). strokes t = h_strokes e)"
      using True by simp
    show "\<forall>e \<in> set (history t). e \<in> set (history s) \<or> h_strokes e = strokes t"
      using True by simp
    show "currentPoints t = [] \<or> currentPoints t = currentPoints s \<or>
      (nextAddr t = Suc (nextAddr s) \<and>
       (currentPoints t = [nextAddr s] \<or> currentPoints t = currentPoints s @ [nextAddr s]))"
      using assms(7) by (auto simp add: currentPoints_def)
  qed
next
  case False
  then have t: "strokes t = strokes s'" "history t = history (saveToHistory s')"
    using assms(6) by blast+
  show ?thesis
    using assms(1,2,3,4,5,7) t by (intro evolves_saved [of s' s t]) simp_all
qed

lemma evolves_confirmTextInput: "evolves s (confirmTextInput s)"
proof (cases "pendingText s")
  case None
  then show ?thesis
    by (intro evolves_maybe_saved [of s s]) (simp_all add: confirmTextInput_def Let_def)
next
  case (Some pt)
  let ?s' = "s\<lparr>texts := texts s @
      [newTextAnnotation (pt_x pt) (pt_y pt) (trim (textInputValue s)) (pt_fontSize pt) (pt_color pt)]\<rparr>"
  show ?thesis
    using Some by (intro evolves_maybe_saved [of ?s' s]) (simp_all add: confirmTextInput_def Let_def)
qed

lemma evolves_hitAnnotation: "evolves s (hitAnnotation x y s)"
proof (cases "findAnnotationAtPoint x y s")
  case None
  then show ?thesis
    by (intro evolves_maybe_saved [of s s]) (simp_all add: hitAnnotation_def clearSelection_def)
next
  case (Some hit)
  obtain ty i where hit: "hit = (ty, i)"
    by (cases hit)
  let ?s' = "s\<lparr>selection := Some (ty, i), dragMode := Some ''move'',
               dragStartX := x, dragStartY := y,
               originalBounds := annotationBounds s ty i\<rparr>"
  show ?thesis
    using Some hit by (intro evolves_maybe_saved [of ?s' s]) (simp_all add: hitAnnotation_def)
qed

lemma evolves_handleSelectMouseDown: "evolves s (handleSelectMouseDown x y s)"
proof -
  have "handleSelectMouseDown x y s = hitAnnotation x y s \<or>
      (\<exists>handle b. handleSelectMouseDown x y s =
         saveToHistory (s\<lparr>dragMode := Some handle, dragStartX := x, dragStartY := y,
                         originalBounds := Some b\<rparr>))"
    by (auto simp add: handleSelectMouseDown_def split: option.splits)
  then show ?thesis
  proof
    assume "handleSelectMouseDown x y s = hitAnnotation x y s"
    then show ?thesis
      by (simp add: evolves_hitAnnotation)
  next
    assume "\<exists>handle b. handleSelectMouseDown x y s =
         saveToHistory (s\<lparr>dragMode := Some handle, dragStartX := x, dragStartY := y,
                         originalBounds := Some b\<rparr>)"
    then obtain handle b where eq: "handleSelectMouseDown x y s =
         saveToHistory (s\<lparr>dragMode := Some handle, dragStartX := x, dragStartY := y,
                         originalBounds := Some b\<rparr>)"
      by blast
    show ?thesis
      unfolding eq
      by (intro evolves_maybe_saved
          [of "s\<lparr>dragMode := Some handle, dragStartX := x, dragStartY := y,
                  originalBounds := Some b\<rparr>" s]) simp_all
  qed
qed

lemma evolves_handleMouseDown: "evolves s (handleMouseDown x y s)"
proof (cases "isEditingText s")
  case True
  then show ?thesis
    by (simp add: handleMouseDown_def evolves_confirmTextInput)
next
  case False
  show ?thesis
  proof (cases "currentTool s = ''select''")
    case True
    then show ?thesis
      using False by (simp add: handleMouseDown_def evolves_handleSelectMouseDown)
  next
    case notsel: False
    show ?thesis
    proof (cases "currentTool s = ''pen''")
      case True
      have "nextAddr (handleMouseDown x y s) = Suc (nextAddr s) \<and>
          strokes (handleMouseDown x y s) = strokes s \<and>
          history (handleMouseDown x y s) = history s \<and>
          currentPoints (handleMouseDown x y s) = [nextAddr s]"
        using False True
        by (simp add: handleMouseDown_def addPoint_def newStroke_def currentPoints_def Let_def)
      then show ?thesis
        by (intro evolvesI) simp_all
    next
      case nopen: False
      have "nextAddr (handleMouseDown x y s) = nextAddr s \<and>
          strokes (handleMouseDown x y s) = strokes s \<and>
          history (handleMouseDown x y s) = history s \<and>
          currentStroke (handleMouseDown x y s) = currentStroke s"
        using False notsel nopen
        by (simp add: handleMouseDown_def showTextInput_def Let_def)
      then show ?thesis
        by (intro evolves_kept) simp_all
    qed
  qed
qed


lemma evolves_handleSelectMouseMove:
  assumes "handleSelectMouseMove x y s = Inr t"
  shows "evolves s t"
proof -
  have f: "nextAddr t = nextAddr s \<and> history t = history s \<and> currentStroke t = currentStroke s"
  proof (cases "selection s")
    case None
    then show ?thesis
      using assms by (simp add: handleSelectMouseMove_def)
  next
    case (Some sel)
    obtain ty i where sel: "sel = (ty, i)"
      by (cases sel)
    show ?thesis
    proof (cases "dragMode s = Some ''move''")
      case True
      then have "t = (moveAnnotation ty i (x - dragStartX s) (y - dragStartY s) s)
          \<lparr>dragStartX := x, dragStartY := y\<rparr>"
        using assms Some sel by (simp add: handleSelectMouseMove_def Let_def)
      then show ?thesis
        by (cases ty) (simp_all add: moveAnnotation_def)
    next
      case False
      have "t = s \<or> (\<exists>mode ob.
          resizeAnnotation ty i mode (x - dragStartX s) (y - dragStartY s) ob s = Inr t)"
        using assms Some sel False
        by (auto simp add: handleSelectMouseMove_def Let_def split: option.splits if_splits)
      then show ?thesis
      proof
        assume "t = s"
        then show ?thesis by simp
      next
        assume "\<exists>mode ob.
          resizeAnnotation ty i mode (x - dragStartX s) (y - dragStartY s) ob s = Inr t"
        then obtain nb ob where "applyBoundsToAnnotation ty i nb ob s = Inr t"
          by (auto simp add: resizeAnnotation_def)
        then show ?thesis
          by (cases ty)
            (auto simp add: applyBoundsToAnnotation_def split: sum.splits if_splits)
      qed
    qed
  qed
  have "strokes t = strokes s"
    using handleSelectMouseMove_sel [OF assms] by simp
  then show ?thesis
    using f by (intro evolves_kept) simp_all
qed

lemma evolves_handleMouseMove:
  assumes "handleMouseMove x y s = Inr t"
  shows "evolves s t"
proof (cases "currentTool s = ''select'' \<and> truthyMode (dragMode s) \<and> selection s \<noteq> None")
  case True
  then have "handleSelectMouseMove x y s = Inr t"
    using assms by (simp add: handleMouseMove_def)
  then show ?thesis
    by (rule evolves_handleSelectMouseMove)
next
  case False
  show ?thesis
  proof (cases "isDrawing s")
    case notdrawing: False
    then have "t = s"
      using assms False by (auto simp add: handleMouseMove_def)
    then show ?thesis
      by (simp add: evolves_refl)
  next
    case True
    show ?thesis
    proof (cases "currentTool s = ''pen'' \<and> currentStroke s \<noteq> None")
      case pen: True
      then obtain c where c: "currentStroke s = Some c"
        by blast
      have "nextAddr t = Suc (nextAddr s) \<and> strokes t = strokes s \<and> history t = history s \<and>
          currentPoints t = currentPoints s @ [nextAddr s]"
        using assms False True pen c
        by (auto simp add: handleMouseMove_def addPoint_def currentPoints_def)
      then show ?thesis
        by (intro evolvesI) simp_all
    next
      case nopen: False
      then have "t = scheduleShapeRedraw x y s"
        using assms False True
        by (cases "currentStroke s"; cases "currentTool s = ''pen''")
          (auto simp add: handleMouseMove_def)
      then show ?thesis
        by (intro evolves_kept) (simp_all add: scheduleShapeRedraw_def Let_def)
    qed
  qed
qed

lemma evolves_animationFrame: "evolves s (animationFrame s)"
  by (intro evolves_kept)
    (simp_all add: animationFrame_def Let_def split: option.splits prod.splits)

lemma evolves_toolbarClick:
  assumes "toolbarClick tool s = Inr t"
  shows "evolves s t"
proof (cases "tool = ''undo''")
  case True
  then have "undo s = Inr t"
    using assms by (simp add: toolbarClick_def)
  then show ?thesis
    by (rule evolves_undo)
next
  case False
  show ?thesis
  proof (cases "tool = ''redo''")
    case True
    then have "redo s = Inr t"
      using assms by (simp add: toolbarClick_def)
    then show ?thesis
      by (rule evolves_redo)
  next
    case notredo: False
    have "nextAddr t = nextAddr s \<and> strokes t = strokes s \<and> history t = history s \<and>
        currentStroke t = currentStroke s"
      using assms False notredo
      by (auto simp add: toolbarClick_def cancelTextInput_def clearSelection_def Let_def
          split: if_splits)
    then show ?thesis
      by (intro evolves_kept) simp_all
  qed
qed

lemma evolves_handleMouseUp: "evolves s (handleMouseUp s)"
proof (cases "currentTool s = ''select''")
  case True
  then show ?thesis
    by (intro evolves_kept) (simp_all add: handleMouseUp_def)
next
  case False
  show ?thesis
  proof (cases "isDrawing s")
    case notdrawing: False
    then show ?thesis
      using False by (simp add: handleMouseUp_def evolves_refl)
  next
    case True
    let ?s2 = "(if rafId s then s\<lparr>rafId := False, pendingCoords := None\<rparr> else s)\<lparr>isDrawing := False\<rparr>"
    have s2: "nextAddr ?s2 = nextAddr s" "history ?s2 = history s" "strokes ?s2 = strokes s"
      "currentStroke ?s2 = currentStroke s"
      by simp_all
    consider
      (pen) c where "currentTool s = ''pen''" "currentStroke s = Some c"
      | (arrow) a where "currentTool s = ''arrow''" "currentArrow s = Some a"
      | (rectangle) r where "currentTool s = ''rectangle''" "currentRectangle s = Some r"
      | (circle) e where "currentTool s = ''circle''" "currentEllipse s = Some e"
      | (blur) b where "currentTool s = ''blur''" "currentBlur s = Some b"
      | (other) "\<not> (currentTool s = ''pen'' \<and> currentStroke s \<noteq> None)"
          "\<not> (currentTool s = ''arrow'' \<and> currentArrow s \<noteq> None)"
          "\<not> (currentTool s = ''rectangle'' \<and> currentRectangle s \<noteq> None)"
          "\<not> (currentTool s = ''circle'' \<and> currentEllipse s \<noteq> None)"
          "\<not> (currentTool s = ''blur'' \<and> currentBlur s \<noteq> None)"
      by blast
    then show ?thesis
    proof cases
      case pen
      show ?thesis
        using False True pen
        by (intro evolves_maybe_saved [of "?s2\<lparr>strokes := strokes ?s2 @ [c]\<rparr>" s])
          (simp_all add: handleMouseUp_def Let_def)
    next
      case arrow
      show ?thesis
        using False True arrow
        by (intro evolves_maybe_saved [of "?s2\<lparr>arrows := arrows ?s2 @ [a]\<rparr>" s])
          (simp_all add: handleMouseUp_def Let_def)
    next
      case rectangle
      show ?thesis
        using False True rectangle
        by (intro evolves_maybe_saved [of "?s2\<lparr>rectangles := rectangles ?s2 @ [r]\<rparr>" s])
          (simp_all add: handleMouseUp_def Let_def)
    next
      case circle
      show ?thesis
        using False True circle
        by (intro evolves_maybe_saved [of "?s2\<lparr>ellipses := ellipses ?s2 @ [e]\<rparr>" s])
          (simp_all add: handleMouseUp_def Let_def)
    next
      case blur
      show ?thesis
        using False True blur
        by (intro evolves_maybe_saved [of "?s2\<lparr>blurs := blurs ?s2 @ [b]\<rparr>" s])
          (simp_all add: handleMouseUp_def Let_def)
    next
      case other
      then have "handleMouseUp s = ?s2"
        using False True by (simp add: handleMouseUp_def Let_def)
      then show ?thesis
        by (intro evolves_kept) simp_all
    qed
  qed
qed

lemma evolves_step:
  assumes "step ev s = Inr t"
  shows "evolves s t"
proof (cases ev)
  case (MouseDown x y)
  then have "t = handleMouseDown x y s"
    using assms by (simp add: step_def)
  then show ?thesis
    by (simp add: evolves_handleMouseDown)
next
  case (MouseMove x y)
  then have "handleMouseMove x y s = Inr t"
    using assms by (simp add: step_def)
  then show ?thesis
    by (rule evolves_handleMouseMove)
next
  case MouseUp
  then have "t = handleMouseUp s"
    using assms by (simp add: step_def)
  then show ?thesis
    by (simp add: evolves_handleMouseUp)
next
  case MouseLeave
  then have "t = handleMouseUp s"
    using assms by (simp add: step_def)
  then show ?thesis
    by (simp add: evolves_handleMouseUp)
next
  case AnimationFrame
  then have "t = animationFrame s"
    using assms by (simp add: step_def)
  then show ?thesis
    by (simp add: evolves_animationFrame)
next
  case (ToolbarClick tool)
  then have "toolbarClick tool s = Inr t"
    using assms by (simp add: step_def)
  then show ?thesis
    by (rule evolves_toolbarClick)
next
  case (TypeText v)
  then have "t = s\<lparr>textInputValue := v\<rparr>"
    using assms by (simp add: step_def)
  then show ?thesis
    by (intro evolves_kept) simp_all
next
  case TextKeyEnter
  then have "t = confirmTextInput s"
    using assms by (simp add: step_def)
  then show ?thesis
    by (simp add: evolves_confirmTextInput)
next
  case TextKeyEscape
  then have "t = cancelTextInput s"
    using assms by (simp add: step_def)
  then show ?thesis
    by (intro evolves_kept) (simp_all add: cancelTextInput_def)
next
  case TextBlurTimeout
  then have "t = confirmTextInput s \<or> t = s"
    using assms by (cases "isEditingText s") (simp_all add: step_def)
  then show ?thesis
    using evolves_confirmTextInput evolves_refl by auto
next
  case KeyUndo
  then have "t = s \<or> undo s = Inr t"
    using assms by (cases "isEditingText s") (simp_all add: step_def)
  then show ?thesis
    using evolves_undo evolves_refl by auto
next
  case KeyRedo
  then have "t = s \<or> redo s = Inr t"
    using assms by (cases "isEditingText s") (simp_all add: step_def)
  then show ?thesis
    using evolves_redo evolves_refl by auto
next
  case (KeyTool tool)
  then have "t = s \<or> toolbarClick tool s = Inr t"
    using assms by (cases "isEditingText s") (simp_all add: step_def)
  then show ?thesis
    using evolves_toolbarClick evolves_refl by auto
qed

text \<open>Writes to the cells of a list of addresses leave every other cell as it was.\<close>

lemma fold_update_other:
  assumes "a \<notin> set as"
  shows "fold (\<lambda>b h. h(b := g h b)) as h a = h a"
  using assms by (induction as arbitrary: h) simp_all

lemma movePoints_other:
  assumes "a \<notin> set as"
  shows "movePoints dx dy as h a = h a"
  unfolding movePoints_def using assms
  by (rule fold_update_other [where g = "\<lambda>h b. \<lparr>p_x = p_x (h b) + dx, p_y = p_y (h b) + dy\<rparr>"])

lemma scaleEach_other:
  assumes "a \<notin> set as" and "scaleEach nb ob qx qy as h = Inr h'"
  shows "h' a = h a"
  using assms by (induction as arbitrary: h) (auto split: sum.splits)

lemma scalePoints_other:
  assumes "a \<notin> set as" and "scalePoints nb ob as h = Inr h'"
  shows "h' a = h a"
proof -
  obtain qx qy where "scaleEach nb ob qx qy as h = Inr h'"
    using assms(2) by (auto simp add: scalePoints_def split: sum.splits)
  then show ?thesis
    using scaleEach_other [OF assms(1)] by blast
qed

subsection \<open>The point object of a dot is never written\<close>

lemma heap_handleMouseDown:
  assumes "a < nextAddr s"
  shows "heap (handleMouseDown x y s) a = heap s a"
proof -
  have sel: "heap (handleSelectMouseDown x y s) = heap s"
    by (simp add: handleSelectMouseDown_def hitAnnotation_def clearSelection_def
        split: option.splits prod.splits)
  have conf: "heap (confirmTextInput s) = heap s"
    by (simp add: confirmTextInput_def Let_def split: option.splits)
  show ?thesis
    using assms sel conf
    by (simp add: handleMouseDown_def showTextInput_def addPoint_def Let_def)
qed

lemma heap_handleSelectMouseMove:
  assumes "dotSafe a s" and "dotNeverSelected s" and "handleSelectMouseMove x y s = Inr t"
  shows "heap t a = heap s a"
proof (cases "selection s")
  case None
  then show ?thesis
    using assms(3) by (simp add: handleSelectMouseMove_def)
next
  case (Some sel)
  obtain ty i where sel: "sel = (ty, i)"
    by (cases sel)
  have away: "a \<notin> set (s_points (strokes s ! i))" if "ty = TStroke"
  proof
    assume inside: "a \<in> set (s_points (strokes s ! i))"
    have i: "i < length (strokes s)" and long: "2 \<le> length (s_points (strokes s ! i))"
      using assms(2) Some sel that by (simp_all add: dotNeverSelected_def)
    have "strokes s ! i \<in> set (knownStrokes s)"
      using i by (simp add: knownStrokes_def)
    then have "s_points (strokes s ! i) = [a]"
      using assms(1) inside by (simp add: dotSafe_def)
    then show False
      using long by simp
  qed
  show ?thesis
  proof (cases "dragMode s = Some ''move''")
    case True
    then have t: "t = (moveAnnotation ty i (x - dragStartX s) (y - dragStartY s) s)
        \<lparr>dragStartX := x, dragStartY := y\<rparr>"
      using assms(3) Some sel by (simp add: handleSelectMouseMove_def Let_def)
    show ?thesis
      unfolding t using away
      by (cases ty) (simp_all add: moveAnnotation_def movePoints_other)
  next
    case False
    have "t = s \<or> (\<exists>mode ob.
        resizeAnnotation ty i mode (x - dragStartX s) (y - dragStartY s) ob s = Inr t)"
      using assms(3) Some sel False
      by (auto simp add: handleSelectMouseMove_def Let_def split: option.splits if_splits)
    then show ?thesis
    proof
      assume "t = s"
      then show ?thesis by simp
    next
      assume "\<exists>mode ob.
        resizeAnnotation ty i mode (x - dragStartX s) (y - dragStartY s) ob s = Inr t"
      then obtain nb ob where ab: "applyBoundsToAnnotation ty i nb ob s = Inr t"
        by (auto simp add: resizeAnnotation_def)
      show ?thesis
      proof (cases ty)
        case TStroke
        show ?thesis
        proof (cases "i < length (strokes s)")
          case True
          then obtain h' where h': "scalePoints nb ob (s_points (strokes s ! i)) (heap s) = Inr h'"
            and t: "t = s\<lparr>heap := h'\<rparr>"
            using ab TStroke by (auto simp add: applyBoundsToAnnotation_def split: sum.splits)
          show ?thesis
            using scalePoints_other [OF away [OF TStroke] h'] t by simp
        next
          case False
          then show ?thesis
            using ab TStroke by (simp add: applyBoundsToAnnotation_def)
        qed
      qed (insert ab, auto simp add: applyBoundsToAnnotation_def split: sum.splits)
    qed
  qed
qed

lemma heap_handleMouseMove:
  assumes "dotSafe a s" and "dotNeverSelected s" and "handleMouseMove x y s = Inr t"
  shows "heap t a = heap s a"
proof (cases "currentTool s = ''select'' \<and> truthyMode (dragMode s) \<and> selection s \<noteq> None")
  case True
  then have "handleSelectMouseMove x y s = Inr t"
    using assms(3) by (simp add: handleMouseMove_def)
  then show ?thesis
    using assms(1,2) by (rule heap_handleSelectMouseMove [rotated 2])
next
  case False
  have lt: "a < nextAddr s"
    using assms(1) by (simp add: dotSafe_def)
  show ?thesis
  proof (cases "isDrawing s")
    case notdrawing: False
    then have "t = s"
      using assms(3) False by (auto simp add: handleMouseMove_def)
    then show ?thesis
      by simp
  next
    case True
    show ?thesis
    proof (cases "currentTool s = ''pen'' \<and> currentStroke s \<noteq> None")
      case pen: True
      then obtain c where c: "currentStroke s = Some c"
        by blast
      have "heap t = (heap s)(nextAddr s := \<lparr>p_x = x, p_y = y\<rparr>)"
        using assms(3) False True pen c
        by (auto simp add: handleMouseMove_def addPoint_def)
      then show ?thesis
        using lt by simp
    next
      case nopen: False
      then have "t = scheduleShapeRedraw x y s"
        using assms(3) False True
        by (cases "currentStroke s"; cases "currentTool s = ''pen''")
          (auto simp add: handleMouseMove_def)
      then show ?thesis
        by (simp add: scheduleShapeRedraw_def Let_def)
    qed
  qed
qed

lemma heap_restore:
  assumes "restoreFromHistory s = Inr t"
  shows "heap t = heap s"
  using assms
  by (cases "0 \<le> historyIndex s \<and> historyIndex s < int (length (history s))")
    (auto simp add: restoreFromHistory_def clearSelection_def Let_def)

lemma heap_undo:
  assumes "undo s = Inr t"
  shows "heap t = heap s"
proof (cases "historyIndex s > 0")
  case True
  then have "restoreFromHistory (s\<lparr>historyIndex := historyIndex s - 1\<rparr>) = Inr t"
    using assms by (simp add: undo_def)
  then show ?thesis
    using heap_restore by fastforce
next
  case False
  then show ?thesis
    using assms by (simp add: undo_def)
qed

lemma heap_redo:
  assumes "redo s = Inr t"
  shows "heap t = heap s"
proof (cases "historyIndex s < int (length (history s)) - 1")
  case True
  then have "restoreFromHistory (s\<lparr>historyIndex := historyIndex s + 1\<rparr>) = Inr t"
    using assms by (simp add: redo_def)
  then show ?thesis
    using heap_restore by fastforce
next
  case False
  then show ?thesis
    using assms by (simp add: redo_def)
qed

lemma heap_toolbarClick:
  assumes "toolbarClick tool s = Inr t"
  shows "heap t = heap s"
proof (cases "tool = ''undo''")
  case True
  then have "undo s = Inr t"
    using assms by (simp add: toolbarClick_def)
  then show ?thesis
    by (rule heap_undo)
next
  case False
  show ?thesis
  proof (cases "tool = ''redo''")
    case True
    then have "redo s = Inr t"
      using assms by (simp add: toolbarClick_def)
    then show ?thesis
      by (rule heap_redo)
  next
    case notredo: False
    show ?thesis
      using assms False notredo
      by (auto simp add: toolbarClick_def cancelTextInput_def clearSelection_def Let_def
          split: if_splits)
  qed
qed

lemma heap_handleMouseUp: "heap (handleMouseUp s) = heap s"
  by (simp add: handleMouseUp_def Let_def split: option.splits)

lemma heap_step:
  assumes "dotSafe a s" and "dotNeverSelected s" and "step ev s = Inr t"
  shows "heap t a = heap s a"
proof (cases ev)
  case (MouseDown x y)
  then have "t = handleMouseDown x y s"
    using assms(3) by (simp add: step_def)
  then show ?thesis
    using assms(1) by (simp add: heap_handleMouseDown dotSafe_def)
next
  case (MouseMove x y)
  then have "handleMouseMove x y s = Inr t"
    using assms(3) by (simp add: step_def)
  then show ?thesis
    using assms(1,2) by (rule heap_handleMouseMove [rotated 2])
next
  case MouseUp
  then have "t = handleMouseUp s"
    using assms(3) by (simp add: step_def)
  then show ?thesis
    by (simp add: heap_handleMouseUp)
next
  case MouseLeave
  then have "t = handleMouseUp s"
    using assms(3) by (simp add: step_def)
  then show ?thesis
    by (simp add: heap_handleMouseUp)
next
  case AnimationFrame
  then have "t = animationFrame s"
    using assms(3) by (simp add: step_def)
  then show ?thesis
    by (simp add: animationFrame_def Let_def split: option.splits prod.splits)
next
  case (ToolbarClick tool)
  then have "toolbarClick tool s = Inr t"
    using assms(3) by (simp add: step_def)
  then show ?thesis
    using heap_toolbarClick by fastforce
next
  case (TypeText v)
  then show ?thesis
    using assms(3) by (auto simp add: step_def)
next
  case TextKeyEnter
  then show ?thesis
    using assms(3) by (auto simp add: step_def confirmTextInput_def Let_def split: option.splits)
next
  case TextKeyEscape
  then show ?thesis
    using assms(3) by (auto simp add: step_def cancelTextInput_def)
next
  case TextBlurTimeout
  then show ?thesis
    using assms(3)
    by (cases "isEditingText s")
      (auto simp add: step_def confirmTextInput_def Let_def split: option.splits)
next
  case KeyUndo
  then have "t = s \<or> undo s = Inr t"
    using assms(3) by (cases "isEditingText s") (simp_all add: step_def)
  then show ?thesis
    using heap_undo by fastforce
next
  case KeyRedo
  then have "t = s \<or> redo s = Inr t"
    using assms(3) by (cases "isEditingText s") (simp_all add: step_def)
  then show ?thesis
    using heap_redo by fastforce
next
  case (KeyTool tool)
  then have "t = s \<or> toolbarClick tool s = Inr t"
    using assms(3) by (cases "isEditingText s") (simp_all add: step_def)
  then show ?thesis
    using heap_toolbarClick by fastforce
qed

lemma dot_run:
  assumes "dotSafe a s" and "dotNeverSelected s" and "run evs s = Inr u"
  shows "dotSafe a u \<and> dotNeverSelected u \<and> heap u a = heap s a"
  using assms
proof (induction evs arbitrary: s)
  case Nil
  then show ?case by simp
next
  case (Cons ev evs)
  then obtain s' where s': "step ev s = Inr s'" and r: "run evs s' = Inr u"
    by (auto split: sum.splits)
  have safe: "dotSafe a s'"
    using dotSafe_evolves [OF Cons.prems(1) evolves_step [OF s']] .
  have dns: "dotNeverSelected s'"
    using dns_step [OF Cons.prems(2) s'] .
  have cell: "heap s' a = heap s a"
    using heap_step [OF Cons.prems(1,2) s'] .
  show ?case
    using Cons.IH [OF safe dns r] cell by simp
qed

lemma allocated_run:
  assumes "allocated s" and "run evs s = Inr u"
  shows "allocated u"
  using assms
proof (induction evs arbitrary: s)
  case Nil
  then show ?case by simp
next
  case (Cons ev evs)
  then obtain s' where s': "step ev s = Inr s'" and r: "run evs s' = Inr u"
    by (auto split: sum.splits)
  show ?case
    using Cons.IH [OF allocated_evolves [OF Cons.prems(1) evolves_step [OF s']] r] .
qed

lemma run_append:
  "run (evs @ evs') s = Inr u \<longleftrightarrow> (\<exists>t. run evs s = Inr t \<and> run evs' t = Inr u)"
  by (induction evs arbitrary: s) (auto split: sum.splits)

lemma allocated_initial: "allocated (saveToHistory (initialState mt))"
  by (simp add: allocated_def knownStrokes_def currentPoints_def initialState_def
      saveToHistory_def snapshot_def Let_def maxEntries_def)

lemma dns_initial: "dotNeverSelected (saveToHistory (initialState mt))"
  by (simp add: dotNeverSelected_def initialState_def saveToHistory_def Let_def)

lemma pen_click:
  assumes "currentTool s = ''pen''" and "\<not> isEditingText s"
  shows "run [MouseDown x y, MouseUp] s = Inr (handleMouseUp (handleMouseDown x y s))"
    and "strokes (handleMouseUp (handleMouseDown x y s)) =
           strokes s @ [\<lparr>s_points = [nextAddr s], s_color = color s, s_lineWidth = lineWidth s\<rparr>]"
    and "heap (handleMouseUp (handleMouseDown x y s)) = (heap s)(nextAddr s := \<lparr>p_x = x, p_y = y\<rparr>)"
    and "nextAddr (handleMouseDown x y s) = Suc (nextAddr s)"
    and "currentPoints (handleMouseDown x y s) = [nextAddr s]"
    and "currentPoints (handleMouseUp (handleMouseDown x y s)) = []"
proof -
  let ?dot = "\<lparr>s_points = [nextAddr s], s_color = color s, s_lineWidth = lineWidth s\<rparr>"
  have down: "handleMouseDown x y s =
      s\<lparr>isDrawing := True, currentStroke := Some ?dot,
        heap := (heap s)(nextAddr s := \<lparr>p_x = x, p_y = y\<rparr>), nextAddr := Suc (nextAddr s)\<rparr>"
    using assms by (simp add: handleMouseDown_def addPoint_def newStroke_def Let_def)
  show "run [MouseDown x y, MouseUp] s = Inr (handleMouseUp (handleMouseDown x y s))"
    by (simp add: step_def)
  show "strokes (handleMouseUp (handleMouseDown x y s)) = strokes s @ [?dot]"
    unfolding down using assms(1) by (simp add: handleMouseUp_def Let_def)
  show "heap (handleMouseUp (handleMouseDown x y s)) = (heap s)(nextAddr s := \<lparr>p_x = x, p_y = y\<rparr>)"
    unfolding heap_handleMouseUp down by simp
  show "nextAddr (handleMouseDown x y s) = Suc (nextAddr s)"
    unfolding down by simp
  show "currentPoints (handleMouseDown x y s) = [nextAddr s]"
    unfolding down by (simp add: currentPoints_def)
  show "currentPoints (handleMouseUp (handleMouseDown x y s)) = []"
    unfolding down using assms(1) by (simp add: handleMouseUp_def Let_def currentPoints_def)
qed

lemma dotSafe_after_click:
  assumes "allocated s" and "currentTool s = ''pen''" and "\<not> isEditingText s"
  shows "dotSafe (nextAddr s) (handleMouseUp (handleMouseDown x y s))"
proof -
  let ?s1 = "handleMouseDown x y s" and ?t = "handleMouseUp (handleMouseDown x y s)"
  note click = pen_click [OF assms(2,3), of x y]
  have e1: "evolves s ?s1" and e2: "evolves ?s1 ?t"
    by (rule evolves_handleMouseDown, rule evolves_handleMouseUp)
  have old: "nextAddr s \<notin> set (s_points st)" if "st \<in> set (knownStrokes s)" for st
    using assms(1) that by (fastforce simp add: allocated_def)
  have cur: "nextAddr s \<notin> set (currentPoints s)"
    using assms(1) by (fastforce simp add: allocated_def)
  have known: "s_points st = [nextAddr s]"
    if st: "st \<in> set (knownStrokes ?t)" and inside: "nextAddr s \<in> set (s_points st)" for st
  proof -
    have "st \<in> set (knownStrokes ?s1) \<or> s_points st = currentPoints ?s1"
      using e2 st by (simp add: evolves_def)
    then show ?thesis
    proof
      assume "st \<in> set (knownStrokes ?s1)"
      then have "st \<in> set (knownStrokes s) \<or> s_points st = currentPoints s"
        using e1 by (simp add: evolves_def)
      then show ?thesis
        using old cur inside by auto
    next
      assume "s_points st = currentPoints ?s1"
      then show ?thesis
        using click(5) by simp
    qed
  qed
  have "nextAddr s < nextAddr ?t"
    using e2 click(4) by (simp add: evolves_def)
  then show ?thesis
    using known click(6) by (simp add: dotSafe_def)
qed

text \<open>
  C9. \<open>findAnnotationAtPoint\<close> never returns a stroke of fewer than two points. Yet in
  any state the editor can reach after the image is loaded, with the pen tool and no text
  entry open, a click (mouse down and up at one point) commits a stroke of that single
  point, which \<open>drawStroke\<close> paints as a filled circle of radius \<open>lineWidth / 2\<close>.
  Whatever happens afterwards, the selection is never a stroke of fewer than two points,
  no hit test returns the dot, and its point is where the click put it: the select tool
  neither selects nor moves nor resizes it.
\<close>

theorem dot_stroke_unselectable:
  "(findAnnotationAtPoint x0 y0 s0 = Some (TStroke, i) \<longrightarrow>
      2 \<le> length (s_points (strokes s0 ! i))) \<and>
   (run evs (saveToHistory (initialState mt)) = Inr s \<and>
    currentTool s = ''pen'' \<and> \<not> isEditingText s \<and>
    run ([MouseDown x y, MouseUp] @ evs') s = Inr u \<longrightarrow>
      (\<exists>t. run [MouseDown x y, MouseUp] s = Inr t \<and>
           strokes t =
             strokes s @ [\<lparr>s_points = [nextAddr s], s_color = color s, s_lineWidth = lineWidth s\<rparr>] \<and>
           heap t (nextAddr s) = \<lparr>p_x = x, p_y = y\<rparr> \<and>
           drawStroke (heap t)
             \<lparr>s_points = [nextAddr s], s_color = color s, s_lineWidth = lineWidth s\<rparr> =
             [FillArc x y (lineWidth s / 2) (color s)]) \<and>
      dotNeverSelected u \<and>
      heap u (nextAddr s) = \<lparr>p_x = x, p_y = y\<rparr> \<and>
      (\<forall>x' y' j. findAnnotationAtPoint x' y' u = Some (TStroke, j) \<longrightarrow>
         s_points (strokes u ! j) \<noteq> [nextAddr s]))"
proof -
  have long: "2 \<le> length (s_points (strokes q ! j))"
    if "findAnnotationAtPoint x' y' q = Some (TStroke, j)" for x' y' q j
    using hit_stroke_long [OF that] by simp
  have session: "(\<exists>t. run [MouseDown x y, MouseUp] s = Inr t \<and>
           strokes t =
             strokes s @ [\<lparr>s_points = [nextAddr s], s_color = color s, s_lineWidth = lineWidth s\<rparr>] \<and>
           heap t (nextAddr s) = \<lparr>p_x = x, p_y = y\<rparr> \<and>
           drawStroke (heap t)
             \<lparr>s_points = [nextAddr s], s_color = color s, s_lineWidth = lineWidth s\<rparr> =
             [FillArc x y (lineWidth s / 2) (color s)]) \<and>
      dotNeverSelected u \<and>
      heap u (nextAddr s) = \<lparr>p_x = x, p_y = y\<rparr> \<and>
      (\<forall>x' y' j. findAnnotationAtPoint x' y' u = Some (TStroke, j) \<longrightarrow>
         s_points (strokes u ! j) \<noteq> [nextAddr s])"
    if reach: "run evs (saveToHistory (initialState mt)) = Inr s"
      and pen: "currentTool s = ''pen''"
      and closed: "\<not> isEditingText s"
      and rest: "run ([MouseDown x y, MouseUp] @ evs') s = Inr u"
  proof -
    let ?t = "handleMouseUp (handleMouseDown x y s)"
    note click = pen_click [OF pen closed, of x y]
    have alloc: "allocated s"
      using allocated_run [OF allocated_initial reach] .
    have dns: "dotNeverSelected s"
      using dns_run [OF dns_initial reach] .
    have dnt: "dotNeverSelected ?t"
      using dns_run [OF dns click(1)] .
    have safe: "dotSafe (nextAddr s) ?t"
      using dotSafe_after_click [OF alloc pen closed] .
    have tail: "run evs' ?t = Inr u"
      using rest click(1) unfolding run_append by auto
    have cell: "heap ?t (nextAddr s) = \<lparr>p_x = x, p_y = y\<rparr>"
      unfolding click(3) by simp
    have drawn: "drawStroke (heap ?t)
        \<lparr>s_points = [nextAddr s], s_color = color s, s_lineWidth = lineWidth s\<rparr> =
        [FillArc x y (lineWidth s / 2) (color s)]"
      using cell by (simp add: drawStroke_def)
    have final: "dotNeverSelected u" "heap u (nextAddr s) = heap ?t (nextAddr s)"
      using dot_run [OF safe dnt tail] by simp_all
    have nohit: "s_points (strokes u ! j) \<noteq> [nextAddr s]"
      if "findAnnotationAtPoint x' y' u = Some (TStroke, j)" for x' y' j
      using long [OF that] by auto
    show ?thesis
      using click(1,2) cell drawn final nohit by auto
  qed
  show ?thesis
    using long session by blast
qed

text \<open>
  A dot is drawn at (7,7) with the pen; with the select tool, a mouse down on it, a move
  and a release select nothing and leave the dot at (7,7).
\<close>

theorem dot_stroke_unselectable_witness:
  "run [ToolbarClick ''pen''] loaded = Inr (loaded\<lparr>currentTool := ''pen''\<rparr>) \<and>
   currentTool (loaded\<lparr>currentTool := ''pen''\<rparr>) = ''pen'' \<and>
   \<not> isEditingText (loaded\<lparr>currentTool := ''pen''\<rparr>) \<and>
   (\<exists>u. run ([MouseDown 7 7, MouseUp] @
              [ToolbarClick ''select'', MouseDown 7 7, MouseMove 20 20, MouseUp])
           (loaded\<lparr>currentTool := ''pen''\<rparr>) = Inr u \<and>
        selection u = None \<and> dotNeverSelected u \<and> heap u 0 = \<lparr>p_x = 7, p_y = 7\<rparr>)"
proof -
  let ?s = "loaded\<lparr>currentTool := ''pen''\<rparr>"
  have reach: "run [ToolbarClick ''pen''] loaded = Inr ?s"
    by (simp add: eval_defs)
  then have reach': "run [ToolbarClick ''pen''] (saveToHistory (initialState noMeasure)) = Inr ?s"
    by (simp only: loaded_def)
  have pen: "currentTool ?s = ''pen''" and closed: "\<not> isEditingText ?s"
    and zero: "nextAddr ?s = 0"
    by (simp_all add: eval_defs)
  have "\<exists>u. run ([MouseDown 7 7, MouseUp] @
              [ToolbarClick ''select'', MouseDown 7 7, MouseMove 20 20, MouseUp]) ?s = Inr u \<and>
        selection u = None"
    by (simp add: eval_defs)
  then obtain u where u: "run ([MouseDown 7 7, MouseUp] @
              [ToolbarClick ''select'', MouseDown 7 7, MouseMove 20 20, MouseUp]) ?s = Inr u"
    and none: "selection u = None"
    by blast
  have "dotNeverSelected u \<and> heap u (nextAddr ?s) = \<lparr>p_x = 7, p_y = 7\<rparr>"
    using dot_stroke_unselectable
      [where evs = "[ToolbarClick ''pen'']" and s = ?s and x = 7 and y = 7 and u = u
        and mt = noMeasure
        and evs' = "[ToolbarClick ''select'', MouseDown 7 7, MouseMove 20 20, MouseUp]"]
      reach' pen closed u
    by blast
  then show ?thesis
    using reach pen closed u none zero by auto
qed

end
